theory Spec2Isabelle
  imports Complex_Main
begin

section \<open>C integers\<close>

text \<open>
  The program computes with C \<open>int\<close> (32 bits) and passes the results to GMP functions
  whose parameter is \<open>unsigned long\<close> (64 bits on the LP64 targets the program is built
  for). An \<open>int\<close> is modelled by the mathematical integer it holds; every arithmetic
  operation of the source is followed by \<open>int32\<close>, the two's-complement wrap-around
  that the usual compilers produce when the result leaves the range (C itself leaves a
  signed overflow undefined). The conversion of an \<open>int\<close> argument to
  \<open>unsigned long\<close> is \<open>ulong\<close>.
\<close>

definition INT_MAX :: int where
  "INT_MAX = 2147483647"

definition INT_MIN :: int where
  "INT_MIN = - 2147483648"

definition int32 :: "int \<Rightarrow> int" where
  "int32 x = (x + 2147483648) mod 4294967296 - 2147483648"

definition ulong :: "int \<Rightarrow> nat" where
  "ulong x = nat (x mod 18446744073709551616)"

datatype error = SIGFPE

text \<open>
  \<open>a / b\<close> on \<open>int\<close>: the quotient truncated towards zero; a zero divisor and
  \<open>INT_MIN / -1\<close> trap.
\<close>

definition c_quot :: "int \<Rightarrow> int \<Rightarrow> int" where
  "c_quot a b = sgn a * sgn b * (\<bar>a\<bar> div \<bar>b\<bar>)"

definition c_div :: "int \<Rightarrow> int \<Rightarrow> error + int" where
  "c_div a b =
     (if b = 0 \<or> (a = INT_MIN \<and> b = - 1) then Inl SIGFPE else Inr (c_quot a b))"

section \<open>The constants of the Chudnovsky formula\<close>

definition A :: int where "A = 13591409"
definition B :: int where "B = 545140134"
definition C :: int where "C = 640320"
definition D :: int where "D = 426880"
definition E :: int where "E = 10005"

section \<open>GMP floats\<close>

text \<open>
  An \<open>mpf_t\<close> variable is a name in the memory of one process. The memory holds, for
  every variable, the precision it was initialised with and its value. The value is the
  real number that the GMP float stands for: the operations below are the exact
  operations, and the rounding of each result to the precision of its destination is
  not part of the model. GMP keeps one default precision per process, which
  \<open>mpf_init\<close> and \<open>mpf_init_set_ui\<close> give to the variable they initialise; no other
  operation changes the precision of its destination. A precision is the number of bits
  asked of \<open>mpf_set_default_prec\<close> (GMP works with at least that many).

  The variables of \<open>chudnovsky_algorithm_gmp\<close> are the output parameter \<open>pi\<close>, the
  three variables of the process and, for every thread of the parallel region, its
  private variables and the two float locals of its call of \<open>init_dep_a_gmp\<close>; a
  private variable carries the number of its thread.
\<close>

datatype var =
    V_pi
  | V_local_proc_pi
  | V_e
  | V_c
  | V_local_thread_pi nat
  | V_dep_a nat
  | V_dep_a_dividend nat
  | V_dep_a_divisor nat
  | V_dep_b nat
  | V_dep_c nat
  | V_aux nat
  | V_float_dividend nat
  | V_float_divisor nat

record mpf =
  mp_prec :: nat
  mp_val :: real

text \<open>
  The state of one process: the default precision of GMP, the memory, the send buffers
  the process has handed to \<open>MPI_Reduce\<close>, what it has printed and whether it
  has called \<open>MPI_Finalize\<close>. The output is a sequence of texts and of floats
  printed by \<open>gmp_printf\<close>, whose digits are not modelled.
\<close>

datatype printed = Text string | Float real

record state =
  default_prec :: nat
  mem :: "var \<Rightarrow> mpf"
  reduce_calls :: "mpf list"
  stdout :: "printed list"
  finalized :: bool

definition val :: "var \<Rightarrow> state \<Rightarrow> real" where
  "val x s = mp_val (mem s x)"

definition set_val :: "var \<Rightarrow> real \<Rightarrow> state \<Rightarrow> state" where
  "set_val r v s = s\<lparr>mem := (mem s)(r := (mem s r)\<lparr>mp_val := v\<rparr>)\<rparr>"


definition mpf_init_set_ui :: "var \<Rightarrow> nat \<Rightarrow> state \<Rightarrow> state" where
  "mpf_init_set_ui r n s =
     s\<lparr>mem := (mem s)(r := \<lparr>mp_prec = default_prec s, mp_val = real n\<rparr>)\<rparr>"

definition mpf_init :: "var \<Rightarrow> state \<Rightarrow> state" where
  "mpf_init r s = mpf_init_set_ui r 0 s"

fun mpf_inits :: "var list \<Rightarrow> state \<Rightarrow> state" where
  "mpf_inits [] s = s"
| "mpf_inits (r # rs) s = mpf_inits rs (mpf_init r s)"

definition mpf_set_ui :: "var \<Rightarrow> nat \<Rightarrow> state \<Rightarrow> state" where
  "mpf_set_ui r n s = set_val r (real n) s"

definition mpf_set_z :: "var \<Rightarrow> int \<Rightarrow> state \<Rightarrow> state" where
  "mpf_set_z r z s = set_val r (real_of_int z) s"

definition mpf_neg :: "var \<Rightarrow> var \<Rightarrow> state \<Rightarrow> state" where
  "mpf_neg r a s = set_val r (- val a s) s"

definition mpf_add :: "var \<Rightarrow> var \<Rightarrow> var \<Rightarrow> state \<Rightarrow> state" where
  "mpf_add r a b s = set_val r (val a s + val b s) s"

definition mpf_add_ui :: "var \<Rightarrow> var \<Rightarrow> nat \<Rightarrow> state \<Rightarrow> state" where
  "mpf_add_ui r a n s = set_val r (val a s + real n) s"

definition mpf_mul :: "var \<Rightarrow> var \<Rightarrow> var \<Rightarrow> state \<Rightarrow> state" where
  "mpf_mul r a b s = set_val r (val a s * val b s) s"

definition mpf_mul_ui :: "var \<Rightarrow> var \<Rightarrow> nat \<Rightarrow> state \<Rightarrow> state" where
  "mpf_mul_ui r a n s = set_val r (val a s * real n) s"

definition mpf_pow_ui :: "var \<Rightarrow> var \<Rightarrow> nat \<Rightarrow> state \<Rightarrow> state" where
  "mpf_pow_ui r a n s = set_val r (val a s ^ n) s"

text \<open>GMP aborts the process on a division by zero and on the root of a negative number.\<close>

definition mpf_div :: "var \<Rightarrow> var \<Rightarrow> var \<Rightarrow> state \<Rightarrow> error + state" where
  "mpf_div r a b s =
     (if val b s = 0 then Inl SIGFPE else Inr (set_val r (val a s / val b s) s))"

definition mpf_sqrt :: "var \<Rightarrow> var \<Rightarrow> state \<Rightarrow> error + state" where
  "mpf_sqrt r a s =
     (if val a s < 0 then Inl SIGFPE else Inr (set_val r (sqrt (val a s)) s))"

text \<open>\<open>mpf_clears\<close> releases the limbs of its arguments; the model keeps no allocation.\<close>

definition mpf_clears :: "var list \<Rightarrow> state \<Rightarrow> state" where
  "mpf_clears rs s = s"

text \<open>Sequencing of a step that can abort.\<close>

definition and_then :: "error + 'a \<Rightarrow> ('a \<Rightarrow> error + 'b) \<Rightarrow> error + 'b" where
  "and_then m f = (case m of Inl e \<Rightarrow> Inl e | Inr x \<Rightarrow> f x)"

section \<open>Output\<close>

text \<open>
  The output of \<open>printf\<close>; \<open>%d\<close> and \<open>%i\<close> print an \<open>int\<close> in decimal.
  \<open>gmp_printf\<close> is called with one \<open>%.Ff\<close> between two texts.
\<close>

fun show_nat :: "nat \<Rightarrow> string" where
  "show_nat n =
     (if n < 10 then [char_of (48 + n)] else show_nat (n div 10) @ [char_of (48 + n mod 10)])"

definition show_int :: "int \<Rightarrow> string" where
  "show_int k = (if k < 0 then CHR ''-'' # show_nat (nat (- k)) else show_nat (nat k))"

definition printf :: "string \<Rightarrow> state \<Rightarrow> state" where
  "printf line s = s\<lparr>stdout := stdout s @ [Text line]\<rparr>"

definition gmp_printf :: "string \<Rightarrow> var \<Rightarrow> string \<Rightarrow> state \<Rightarrow> state" where
  "gmp_printf before x after s =
     s\<lparr>stdout := stdout s @ [Text before, Float (val x s), Text after]\<rparr>"


section \<open>One term of the series\<close>

text \<open>
  \<open>chudnovsky_iteration_gmp(pi, n, dep_a, dep_b, dep_c, aux)\<close>: the parameters are the
  variables the caller passes (\<open>pi'\<close> is the parameter \<open>pi\<close>).
\<close>

definition chudnovsky_iteration_gmp ::
  "var \<Rightarrow> int \<Rightarrow> var \<Rightarrow> var \<Rightarrow> var \<Rightarrow> var \<Rightarrow> state \<Rightarrow> error + state" where
  "chudnovsky_iteration_gmp pi' n dep_a dep_b dep_c aux s =
     and_then (mpf_div aux aux dep_b (mpf_mul aux dep_a dep_c s))
       (\<lambda>s. Inr (mpf_add pi' pi' aux s))"

section \<open>Direct initialisation of \<open>dep_a\<close>\<close>

text \<open>
  \<open>init_dep_a_gmp(dep_a, block_start)\<close>, called by thread \<open>t\<close>. The three \<open>mpz_t\<close>
  locals are exact integers; the two float locals are the variables
  \<open>V_float_dividend t\<close> and \<open>V_float_divisor t\<close>.
\<close>

definition init_dep_a_gmp :: "nat \<Rightarrow> var \<Rightarrow> int \<Rightarrow> state \<Rightarrow> error + state" where
  "init_dep_a_gmp t dep_a block_start s =
     (let s = mpf_inits [V_float_dividend t, V_float_divisor t] s;
          factorial_n = (fact (ulong block_start) :: int);
          divisor = (fact (ulong (int32 (3 * block_start))) :: int);
          dividend = (fact (ulong (int32 (6 * block_start))) :: int);
          factorial_n = factorial_n ^ 3;
          divisor = divisor * factorial_n;
          s = mpf_set_z (V_float_dividend t) dividend s;
          s = mpf_set_z (V_float_divisor t) divisor s
      in and_then (mpf_div dep_a (V_float_dividend t) (V_float_divisor t) s)
           (\<lambda>s. Inr (mpf_clears [V_float_dividend t, V_float_divisor t] s)))"

section \<open>The work of one thread\<close>

text \<open>
  The body of the parallel region for the thread \<open>thread_id = t\<close>, lines 113 to 122:
  the private sum and the recurrence state \<open>dep_a\<close>, \<open>dep_b\<close>, \<open>dep_c\<close> are
  initialised directly at the index \<open>block_start + thread_id\<close>. (The assignment to
  \<open>factor_a\<close> of line 122 is overwritten before it is read.)
\<close>

definition thread_init :: "nat \<Rightarrow> int \<Rightarrow> state \<Rightarrow> error + state" where
  "thread_init t block_start s =
     (let thread_id = int t;
          s = mpf_init_set_ui (V_local_thread_pi t) 0 s;
          s = mpf_inits [V_dep_a t, V_dep_b t, V_dep_a_dividend t, V_dep_a_divisor t, V_aux t] s
      in and_then (init_dep_a_gmp t (V_dep_a t) (int32 (block_start + thread_id)) s)
           (\<lambda>s. let s = mpf_pow_ui (V_dep_b t) V_c (ulong (int32 (block_start + thread_id))) s;
                     s = mpf_init_set_ui (V_dep_c t) (ulong B) s;
                     s = mpf_mul_ui (V_dep_c t) (V_dep_c t)
                           (ulong (int32 (block_start + thread_id))) s;
                     s = mpf_add_ui (V_dep_c t) (V_dep_c t) (ulong A) s
                 in Inr s))"

text \<open>Lines 135 to 151 of the loop body: the update of the three dependencies.\<close>

definition update_deps :: "nat \<Rightarrow> int \<Rightarrow> int \<Rightarrow> state \<Rightarrow> error + state" where
  "update_deps t num_threads i s =
     (let factor_a = int32 (12 * i);
          s = mpf_set_ui (V_dep_a_dividend t) (ulong (int32 (factor_a + 10))) s;
          s = mpf_mul_ui (V_dep_a_dividend t) (V_dep_a_dividend t)
                (ulong (int32 (factor_a + 6))) s;
          s = mpf_mul_ui (V_dep_a_dividend t) (V_dep_a_dividend t)
                (ulong (int32 (factor_a + 2))) s;
          s = mpf_mul (V_dep_a_dividend t) (V_dep_a_dividend t) (V_dep_a t) s;
          s = mpf_set_ui (V_dep_a_divisor t) (ulong (int32 (i + 1))) s;
          s = mpf_pow_ui (V_dep_a_divisor t) (V_dep_a_divisor t) 3 s
      in and_then (mpf_div (V_dep_a t) (V_dep_a_dividend t) (V_dep_a_divisor t) s)
           (\<lambda>s. let s = mpf_mul (V_dep_b t) (V_dep_b t) V_c s;
                     s = mpf_add_ui (V_dep_c t) (V_dep_c t) (ulong (int32 (B * num_threads))) s
                 in Inr s))"

text \<open>Lines 127 to 133: what the thread 0 prints at every iteration.\<close>

definition debug_output :: "nat \<Rightarrow> int \<Rightarrow> state \<Rightarrow> state" where
  "debug_output t i s =
     (let thread_id = int t
      in if thread_id = 0
         then (let s = printf (''#################### iteration: '' @ show_int i @ '' '' @
                         [CHR 0x0A]) s;
                   s = gmp_printf ''dep_a: '' (V_dep_a t) ('' '' @ [CHR 0x0A]) s;
                   s = gmp_printf ''dep_b: '' (V_dep_b t) ('' '' @ [CHR 0x0A]) s
               in gmp_printf ''dep_c: '' (V_dep_c t) ('' '' @ [CHR 0x0A]) s)
         else s)"

text \<open>The loop body, lines 127 to 151.\<close>

definition loop_body :: "nat \<Rightarrow> int \<Rightarrow> int \<Rightarrow> state \<Rightarrow> error + state" where
  "loop_body t num_threads i s =
     and_then
       (chudnovsky_iteration_gmp (V_local_thread_pi t) i (V_dep_a t) (V_dep_b t) (V_dep_c t)
          (V_aux t) (debug_output t i s))
       (update_deps t num_threads i)"

text \<open>
  The iterations of \<open>for (i = block_start + thread_id; i < block_end; i += num_threads)\<close>,
  in order. A loop that does not end has the value \<open>None\<close>.
\<close>

partial_function (option) thread_loop ::
  "nat \<Rightarrow> int \<Rightarrow> int \<Rightarrow> int \<Rightarrow> state \<Rightarrow> (error + state) option" where
  "thread_loop t num_threads block_end i s =
     (if i < block_end
      then (case loop_body t num_threads i s of
              Inl e \<Rightarrow> Some (Inl e)
            | Inr s' \<Rightarrow> thread_loop t num_threads block_end (int32 (i + num_threads)) s')
      else Some (Inr s))"

text \<open>
  Line 125 makes the loop of line 126 the worksharing loop of a \<open>parallel for\<close>. The
  number of iterations of a worksharing loop is computed before its first iteration,
  from the bounds and the step: the GNU compiler computes it in \<open>int\<close>, as
  \<open>(num_threads - 1 + block_end - i) / num_threads\<close> for the first index \<open>i\<close>. The
  division traps when the step \<open>num_threads\<close> is 0, also when the block is empty, and
  with no iteration to run the loop is skipped. The inner \<open>parallel for\<close> is
  nested in the parallel region, where it runs on a team of one thread: every thread
  executes all the iterations of its own loop. The loop is in the canonical form that
  OpenMP asks for only when its step \<open>num_threads\<close> is positive; then the iterations
  are those of the loop as it is written.
\<close>

definition omp_parallel_for ::
  "nat \<Rightarrow> int \<Rightarrow> int \<Rightarrow> int \<Rightarrow> state \<Rightarrow> (error + state) option" where
  "omp_parallel_for t num_threads block_end i s =
     (case c_div (int32 (int32 (int32 (num_threads - 1) + block_end) - i)) num_threads of
        Inl e \<Rightarrow> Some (Inl e)
      | Inr n \<Rightarrow> if n \<le> 0 then Some (Inr s) else thread_loop t num_threads block_end i s)"

text \<open>Sequencing of a step that can abort or not return.\<close>

definition and_next ::
  "(error + 'a) option \<Rightarrow> ('a \<Rightarrow> (error + 'b) option) \<Rightarrow> (error + 'b) option" where
  "and_next m f =
     (case m of None \<Rightarrow> None | Some (Inl e) \<Rightarrow> Some (Inl e) | Some (Inr x) \<Rightarrow> f x)"

text \<open>
  The whole parallel region for one thread, lines 110 to 159: initialisation, the
  loop, and the critical section that adds the private sum to \<open>local_proc_pi\<close>.
\<close>

definition omp_thread :: "nat \<Rightarrow> int \<Rightarrow> int \<Rightarrow> int \<Rightarrow> state \<Rightarrow> (error + state) option" where
  "omp_thread t num_threads block_start block_end s =
     and_next (Some (thread_init t block_start s))
       (\<lambda>s. and_next
               (omp_parallel_for t num_threads block_end (int32 (block_start + int t)) s)
          (\<lambda>s. let s = mpf_add V_local_proc_pi V_local_proc_pi (V_local_thread_pi t) s;
                    s = mpf_clears [V_local_thread_pi t, V_dep_a t, V_dep_a_dividend t,
                          V_dep_a_divisor t, V_dep_b t, V_dep_c t, V_aux t] s
                in Some (Inr s)))"

text \<open>
  \<open>omp_set_num_threads(num_threads)\<close> and the parallel region: the team has
  \<open>num_threads\<close> threads, numbered from 0 (one thread when \<open>num_threads\<close> is not
  positive, as the GNU runtime does). The threads share \<open>local_proc_pi\<close>, \<open>c\<close> and
  the block bounds; they meet only in the critical section, which they enter here in
  the order of their numbers.
\<close>

definition omp_team :: "int \<Rightarrow> nat list" where
  "omp_team num_threads = [0 ..< (if 0 < num_threads then nat num_threads else 1)]"

fun omp_parallel :: "nat list \<Rightarrow> int \<Rightarrow> int \<Rightarrow> int \<Rightarrow> state \<Rightarrow> (error + state) option" where
  "omp_parallel [] num_threads block_start block_end s = Some (Inr s)"
| "omp_parallel (t # ts) num_threads block_start block_end s =
     and_next (omp_thread t num_threads block_start block_end s)
       (omp_parallel ts num_threads block_start block_end)"

section \<open>The work of one process\<close>

text \<open>Lines 94 to 97: the block of the process \<open>proc_id\<close>.\<close>

definition block_size :: "int \<Rightarrow> int \<Rightarrow> error + int" where
  "block_size num_iterations num_procs =
     c_div (int32 (int32 (num_iterations + num_procs) - 1)) num_procs"

definition block_start :: "int \<Rightarrow> int \<Rightarrow> int" where
  "block_start proc_id bsize = int32 (proc_id * bsize)"

definition block_end :: "int \<Rightarrow> int \<Rightarrow> int \<Rightarrow> int" where
  "block_end num_iterations bstart bsize =
     (let bend = int32 (bstart + bsize)
      in if bend > num_iterations then num_iterations else bend)"

text \<open>
  Lines 94 to 160 of \<open>chudnovsky_algorithm_gmp\<close>: the block, the variables of the
  process and the parallel region. At the end \<open>local_proc_pi\<close> holds the sum of the
  process.
\<close>

definition chudnovsky_summation ::
  "int \<Rightarrow> int \<Rightarrow> int \<Rightarrow> int \<Rightarrow> state \<Rightarrow> (error + state) option" where
  "chudnovsky_summation num_procs proc_id num_iterations num_threads s =
     and_next (Some (block_size num_iterations num_procs))
       (\<lambda>bsize.
          let bstart = block_start proc_id bsize;
              bend = block_end num_iterations bstart bsize;
              s = mpf_init_set_ui V_local_proc_pi 0 s;
              s = mpf_init_set_ui V_e (ulong E) s;
              s = mpf_init_set_ui V_c (ulong C) s;
              s = mpf_neg V_c V_c s;
              s = mpf_pow_ui V_c V_c (ulong (int32 (3 * num_threads))) s
          in omp_parallel (omp_team num_threads) num_threads bstart bend s)"

text \<open>
  Modelled from the spec: \<open>pack_gmp\<close> of \<open>mpi_operations\<close>, which is not among the
  sources. It serialises a float into the send buffer; a payload is the serialised
  float, with its precision and its value.
\<close>

definition pack_gmp :: "mpf \<Rightarrow> mpf" where
  "pack_gmp x = x"

text \<open>
  Modelled from the spec: \<open>unpack_gmp\<close> of \<open>mpi_operations\<close>, which is not among the
  sources. It deserialises a payload into a float: the float receives the value that
  was packed.
\<close>

definition unpack_gmp :: "mpf \<Rightarrow> var \<Rightarrow> state \<Rightarrow> state" where
  "unpack_gmp buffer r s = set_val r (mp_val buffer) s"

text \<open>
  Modelled from the spec: \<open>add_gmp\<close> of \<open>mpi_operations\<close>, which is not among the
  sources. It is the combining function of the reduction, the addition of two payloads.
\<close>

definition add_gmp :: "mpf \<Rightarrow> mpf \<Rightarrow> mpf" where
  "add_gmp invec inoutvec = inoutvec\<lparr>mp_val := mp_val invec + mp_val inoutvec\<rparr>"

text \<open>
  \<open>MPI_Reduce\<close> as one process sees it: the process hands its send buffer to the
  collective operation, and the operation fills the receive buffer of the root.
  \<open>recbuffer\<close> is what the other processes make the root receive; it is a parameter
  here and is tied to the payloads of all the processes in \<open>MPI_Reduce_root\<close> below.
\<close>

definition MPI_Reduce :: "mpf \<Rightarrow> state \<Rightarrow> state" where
  "MPI_Reduce sendbuffer s = s\<lparr>reduce_calls := reduce_calls s @ [sendbuffer]\<rparr>"

text \<open>
  \<open>chudnovsky_algorithm_gmp(num_procs, proc_id, pi, num_iterations, num_threads)\<close>;
  \<open>pi\<close> is the variable \<open>V_pi\<close>. \<open>MPI_Op_create\<close> registers \<open>add_gmp\<close> as
  the operation of the reduction, and \<open>packet_size\<close> is the size of the two
  buffers; neither changes a variable.
\<close>

definition chudnovsky_algorithm_gmp ::
  "mpf \<Rightarrow> int \<Rightarrow> int \<Rightarrow> int \<Rightarrow> int \<Rightarrow> state \<Rightarrow> (error + state) option" where
  "chudnovsky_algorithm_gmp recbuffer num_procs proc_id num_iterations num_threads s =
     and_next (chudnovsky_summation num_procs proc_id num_iterations num_threads s)
       (\<lambda>s. let sendbuffer = pack_gmp (mem s V_local_proc_pi);
                 s = MPI_Reduce sendbuffer s
             in and_next
                  (if proc_id = 0
                   then Some (and_then (mpf_sqrt V_e V_e (unpack_gmp recbuffer V_pi s))
                          (\<lambda>s. mpf_div V_pi V_e V_pi (mpf_mul_ui V_e V_e (ulong D) s)))
                   else Some (Inr s))
                  (\<lambda>s. Some (Inr (mpf_clears [V_local_proc_pi, V_e, V_c] s))))"

section \<open>The group of processes\<close>

text \<open>
  Every process of the group runs the summation in its own memory and sends the
  payload of its \<open>local_proc_pi\<close>.
\<close>

definition payload_of :: "int \<Rightarrow> int \<Rightarrow> int \<Rightarrow> state \<Rightarrow> nat \<Rightarrow> (error + mpf) option" where
  "payload_of num_procs num_iterations num_threads s p =
     and_next (chudnovsky_summation num_procs (int p) num_iterations num_threads s)
       (\<lambda>s. Some (Inr (pack_gmp (mem s V_local_proc_pi))))"

fun payloads :: "int \<Rightarrow> int \<Rightarrow> int \<Rightarrow> state \<Rightarrow> nat list \<Rightarrow> (error + mpf list) option" where
  "payloads num_procs num_iterations num_threads s [] = Some (Inr [])"
| "payloads num_procs num_iterations num_threads s (p # ps) =
     and_next (payload_of num_procs num_iterations num_threads s p)
       (\<lambda>x. and_next (payloads num_procs num_iterations num_threads s ps)
          (\<lambda>xs. Some (Inr (x # xs))))"

text \<open>
  Modelled from the spec: the collective reduce-to-root of the parallel runtime, which
  combines the payloads of all the processes with the combining function, in the order
  of the ranks, and delivers the result to the root.
\<close>

fun MPI_Reduce_root :: "mpf list \<Rightarrow> mpf" where
  "MPI_Reduce_root [] = \<lparr>mp_prec = 0, mp_val = 0\<rparr>"
| "MPI_Reduce_root [x] = x"
| "MPI_Reduce_root (x # y # ys) = MPI_Reduce_root (add_gmp x y # ys)"

text \<open>The value that the reduction delivers to the root: the sum of the whole group.\<close>

definition global_sum :: "int \<Rightarrow> int \<Rightarrow> int \<Rightarrow> state \<Rightarrow> (error + mpf) option" where
  "global_sum num_procs num_iterations num_threads s =
     and_next (payloads num_procs num_iterations num_threads s [0 ..< nat num_procs])
       (\<lambda>xs. Some (Inr (MPI_Reduce_root xs)))"

text \<open>The run of the group, as the root process sees it.\<close>

definition run_root :: "int \<Rightarrow> int \<Rightarrow> int \<Rightarrow> state \<Rightarrow> (error + state) option" where
  "run_root num_procs num_iterations num_threads s =
     and_next (global_sum num_procs num_iterations num_threads s)
       (\<lambda>recbuffer. chudnovsky_algorithm_gmp recbuffer num_procs 0 num_iterations num_threads s)"

text \<open>
  The series of the header comment of the source: the term of index \<open>n\<close> is
  \<open>(6n)! (545140134 n + 13591409) / ((n!)^3 (3n)! (-640320)^(3n))\<close>, and a
  sequential pass over \<open>[0, num_iterations)\<close> adds the terms one after the other.
\<close>

definition dep_a_of :: "nat \<Rightarrow> real" where
  "dep_a_of n = real (fact (6 * n)) / (real (fact n) ^ 3 * real (fact (3 * n)))"

definition dep_b_of :: "nat \<Rightarrow> real" where
  "dep_b_of n = (- real_of_int C) ^ (3 * n)"

definition dep_c_of :: "nat \<Rightarrow> real" where
  "dep_c_of n = real_of_int (B * int n + A)"

definition series_term :: "nat \<Rightarrow> real" where
  "series_term n = dep_a_of n * dep_c_of n / dep_b_of n"

definition sequential_sum :: "nat \<Rightarrow> real" where
  "sequential_sum num_iterations = (\<Sum>n < num_iterations. series_term n)"

text \<open>A memory before any initialisation, with the default precision \<open>p\<close>.\<close>

definition fresh :: "nat \<Rightarrow> state" where
  "fresh p =
     \<lparr>default_prec = p, mem = (\<lambda>x. \<lparr>mp_prec = 0, mp_val = 0\<rparr>), reduce_calls = [],
      stdout = [], finalized = False\<rparr>"

section \<open>The driver\<close>

definition MPI_Finalize :: "state \<Rightarrow> state" where
  "MPI_Finalize s = s\<lparr>finalized := True\<rparr>"

text \<open>
  A call either returns or ends the process with \<open>exit\<close>; the status that the
  environment receives is the argument of \<open>exit\<close> modulo 256. A run can also be
  aborted by a trap.
\<close>

datatype outcome = Exited int state | Aborted error | Returned state

definition exit :: "int \<Rightarrow> state \<Rightarrow> outcome" where
  "exit status s = Exited (status mod 256) s"

definition check_errors_gmp ::
  "int \<Rightarrow> int \<Rightarrow> int \<Rightarrow> int \<Rightarrow> int \<Rightarrow> int \<Rightarrow> state \<Rightarrow> outcome" where
  "check_errors_gmp num_procs precision num_iterations num_threads proc_id algorithm s =
     (if precision \<le> 0
      then (let s = (if proc_id = 0
                     then printf (''  Precision should be greater than cero. '' @
                            [CHR 0x0A, CHR 0x0A]) s
                     else s);
                s = MPI_Finalize s
            in exit (- 1) s)
      else if num_iterations < int32 (num_threads * num_procs)
      then (let s = (if proc_id = 0
                     then (let s = printf
                                 (''  The number of iterations required for the computation is too small to be solved with '' @
                                  show_int num_threads @ '' threads and '' @
                                  show_int num_procs @ '' procesess. '' @ [CHR 0x0A]) s
                           in printf
                                (''  Try using a greater precision or lower threads/processes number. '' @
                                 [CHR 0x0A, CHR 0x0A]) s)
                     else s);
                s = MPI_Finalize s
            in exit (- 1) s)
      else Returned s)"

text \<open>
  \<open>calculate_pi_gmp\<close> calls functions that are not among the sources; they are the
  parameters \<open>externals\<close>: the four algorithms (each takes \<open>num_procs\<close>, \<open>proc_id\<close>,
  \<open>num_iterations\<close> and \<open>num_threads\<close>, and \<open>pi\<close> is the variable \<open>V_pi\<close>), the
  conversion of the \<open>double\<close> product \<open>precision * 0.84\<close> to \<open>int\<close>, and the
  lines that the root prints at the end (\<open>check_decimals_gmp\<close> and
  \<open>print_results\<close> or \<open>print_results_csv\<close>, from \<open>algorithm_type\<close>,
  \<open>precision\<close>, \<open>num_iterations\<close>, \<open>num_procs\<close>, \<open>num_threads\<close> and the
  state). The clock is not modelled.
\<close>

type_synonym algorithm = "int \<Rightarrow> int \<Rightarrow> int \<Rightarrow> int \<Rightarrow> state \<Rightarrow> (error + state) option"





section \<open>The recurrence state\<close>

text \<open>The recurrence state of the thread \<open>t\<close>: \<open>dep_a\<close>, \<open>dep_b\<close> and \<open>dep_c\<close>.\<close>

definition recurrence_state :: "nat \<Rightarrow> state \<Rightarrow> real \<times> real \<times> real" where
  "recurrence_state t s = (val (V_dep_a t) s, val (V_dep_b t) s, val (V_dep_c t) s)"

text \<open>Lines 99 to 103: the variables of the process, as the threads find them.\<close>

definition process_init :: "int \<Rightarrow> state \<Rightarrow> state" where
  "process_init num_threads s =
     (let s = mpf_init_set_ui V_local_proc_pi 0 s;
          s = mpf_init_set_ui V_e (ulong E) s;
          s = mpf_init_set_ui V_c (ulong C) s;
          s = mpf_neg V_c V_c s
      in mpf_pow_ui V_c V_c (ulong (int32 (3 * num_threads))) s)"

text \<open>
  The direct initialisation at the index \<open>n\<close>: what the thread 0 of a process whose
  block starts at \<open>n\<close> does before its loop.
\<close>

definition direct_state :: "int \<Rightarrow> nat \<Rightarrow> state \<Rightarrow> error + state" where
  "direct_state num_threads n s = thread_init 0 (int n) (process_init num_threads s)"

text \<open>
  The incremental way: the thread 0 of the process 0 starts at the index 0, and each
  iteration of its loop advances the recurrence state (lines 135 to 151) at the loop
  index, which grows by \<open>num_threads\<close>.
\<close>

fun loop_index :: "int \<Rightarrow> nat \<Rightarrow> int" where
  "loop_index num_threads 0 = int32 (0 + 0)"
| "loop_index num_threads (Suc k) = int32 (loop_index num_threads k + num_threads)"

fun advanced_state :: "int \<Rightarrow> nat \<Rightarrow> state \<Rightarrow> error + state" where
  "advanced_state num_threads 0 s = thread_init 0 0 (process_init num_threads s)"
| "advanced_state num_threads (Suc k) s =
     and_then (advanced_state num_threads k s)
       (update_deps 0 num_threads (loop_index num_threads k))"

section \<open>Frames\<close>

text \<open>The private variables of the thread \<open>t\<close>.\<close>

definition private_vars :: "nat \<Rightarrow> var set" where
  "private_vars t =
     {V_local_thread_pi t, V_dep_a t, V_dep_a_dividend t, V_dep_a_divisor t, V_dep_b t,
      V_dep_c t, V_aux t, V_float_dividend t, V_float_divisor t}"

text \<open>The variables that the threads \<open>ts\<close> write: their own and \<open>local_proc_pi\<close>.\<close>

definition team_vars :: "nat list \<Rightarrow> var set" where
  "team_vars ts = insert V_local_proc_pi (\<Union>t \<in> set ts. private_vars t)"

text \<open>The variables that \<open>chudnovsky_algorithm_gmp\<close> initialises.\<close>

definition process_vars :: "int \<Rightarrow> var set" where
  "process_vars num_threads = {V_e, V_c} \<union> team_vars (omp_team num_threads)"

text \<open>
  \<open>touches X s s'\<close>: from \<open>s\<close> to \<open>s'\<close> only variables of \<open>X\<close> and the output
  have changed, and a precision that has changed is the default precision.
\<close>

definition touches :: "var set \<Rightarrow> state \<Rightarrow> state \<Rightarrow> bool" where
  "touches X s s' \<longleftrightarrow>
     default_prec s' = default_prec s \<and> reduce_calls s' = reduce_calls s
     \<and> finalized s' = finalized s
     \<and> (\<forall>x. x \<notin> X \<longrightarrow> mem s' x = mem s x)
     \<and> (\<forall>x. mp_prec (mem s' x) = mp_prec (mem s x)
              \<or> mp_prec (mem s' x) = default_prec s)"

text \<open>The variable \<open>x\<close> carries the default precision of the process.\<close>

definition has_prec :: "var \<Rightarrow> state \<Rightarrow> bool" where
  "has_prec x s \<longleftrightarrow> mp_prec (mem s x) = default_prec s"

text \<open>The state \<open>s\<close> with another content of the parameter \<open>pi\<close>.\<close>

definition poke :: "mpf \<Rightarrow> state \<Rightarrow> state" where
  "poke x s = s\<lparr>mem := (mem s)(V_pi := x)\<rparr>"




section \<open>Basic facts\<close>

lemma int32_id: "INT_MIN \<le> x \<Longrightarrow> x \<le> INT_MAX \<Longrightarrow> int32 x = x"
  by (simp add: int32_def INT_MIN_def INT_MAX_def)

lemma c_quot_pos: "0 \<le> a \<Longrightarrow> 0 < b \<Longrightarrow> c_quot a b = a div b"
  by (cases "a = 0") (simp_all add: c_quot_def)

lemma val_set_val: "val x (set_val r v s) = (if x = r then v else val x s)"
  by (simp add: val_def set_val_def)

lemma mem_set_val_other: "x \<noteq> r \<Longrightarrow> mem (set_val r v s) x = mem s x"
  by (simp add: set_val_def)

lemma mp_prec_set_val: "mp_prec (mem (set_val r v s) x) = mp_prec (mem s x)"
  by (simp add: set_val_def)

lemma debug_output_state:
  "mem (debug_output t i s) = mem s" "default_prec (debug_output t i s) = default_prec s"
  "reduce_calls (debug_output t i s) = reduce_calls s"
  "finalized (debug_output t i s) = finalized s"
  by (simp_all add: debug_output_def Let_def printf_def gmp_printf_def)

lemma val_debug_output: "val x (debug_output t i s) = val x s"
  by (simp add: val_def debug_output_state)

lemma ceiling_quotient:
  assumes "0 < (b::int)"
  shows "\<lceil>real_of_int a / real_of_int b\<rceil> = (a + b - 1) div b"
proof -
  define z where "z = (a + b - 1) div b"
  define m where "m = (a + b - 1) mod b"
  have split: "a + b - 1 = z * b + m"
    by (simp add: z_def m_def)
  have m: "0 \<le> m" "m < b"
    using assms by (simp_all add: m_def)
  have lo: "(z - 1) * b < a"
    using split m by (simp add: left_diff_distrib)
  have hi: "a \<le> z * b"
    using split m by linarith
  have "real_of_int (z - 1) * real_of_int b < real_of_int a"
    using lo by (metis of_int_less_iff of_int_mult)
  then have 1: "real_of_int z - 1 < real_of_int a / real_of_int b"
    using assms by (simp add: pos_less_divide_eq)
  have "real_of_int a \<le> real_of_int z * real_of_int b"
    using hi by (metis of_int_le_iff of_int_mult)
  then have 2: "real_of_int a / real_of_int b \<le> real_of_int z"
    using assms by (simp add: pos_divide_le_eq)
  show ?thesis
    unfolding z_def [symmetric] using 1 2 by (intro ceiling_unique) simp_all
qed

lemma div_times_le:
  assumes "0 < (b::int)"
  shows "a div b * b \<le> a"
proof -
  have "a = a div b * b + a mod b" by simp
  moreover have "0 \<le> a mod b" using assms by simp
  ultimately show ?thesis by linarith
qed

section \<open>Frame and precision of the operations\<close>

lemma touches_refl: "touches X s s"
  by (simp add: touches_def)

lemma touches_trans: "touches X s s' \<Longrightarrow> touches X s' s'' \<Longrightarrow> touches X s s''"
  unfolding touches_def by metis

lemma touches_mono: "touches X s s' \<Longrightarrow> X \<subseteq> Y \<Longrightarrow> touches Y s s'"
  unfolding touches_def by blast

lemma touches_set_val: "r \<in> X \<Longrightarrow> touches X s (set_val r v s)"
  by (auto simp add: touches_def set_val_def)

lemma touches_init_set_ui: "r \<in> X \<Longrightarrow> touches X s (mpf_init_set_ui r n s)"
  by (auto simp add: touches_def mpf_init_set_ui_def)

lemma touches_inits: "set rs \<subseteq> X \<Longrightarrow> touches X s (mpf_inits rs s)"
proof (induction rs arbitrary: s)
  case Nil
  show ?case by (simp add: touches_refl)
next
  case (Cons r rs)
  have "touches X s (mpf_init r s)"
    using Cons.prems by (simp add: mpf_init_def touches_init_set_ui)
  moreover have "touches X (mpf_init r s) (mpf_inits rs (mpf_init r s))"
    using Cons by simp
  ultimately show ?case by (auto intro: touches_trans)
qed

lemma touches_op:
  "r \<in> X \<Longrightarrow> touches X s (mpf_set_ui r n s)"
  "r \<in> X \<Longrightarrow> touches X s (mpf_set_z r z s)"
  "r \<in> X \<Longrightarrow> touches X s (mpf_neg r a s)"
  "r \<in> X \<Longrightarrow> touches X s (mpf_add r a b s)"
  "r \<in> X \<Longrightarrow> touches X s (mpf_add_ui r a n s)"
  "r \<in> X \<Longrightarrow> touches X s (mpf_mul r a b s)"
  "r \<in> X \<Longrightarrow> touches X s (mpf_mul_ui r a n s)"
  "r \<in> X \<Longrightarrow> touches X s (mpf_pow_ui r a n s)"
  "touches X s (mpf_clears rs s)"
  by (simp_all add: mpf_set_ui_def mpf_set_z_def mpf_neg_def mpf_add_def mpf_add_ui_def
      mpf_mul_def mpf_mul_ui_def mpf_pow_ui_def mpf_clears_def touches_set_val touches_refl)

lemma touches_div: "r \<in> X \<Longrightarrow> mpf_div r a b s = Inr s' \<Longrightarrow> touches X s s'"
  by (auto simp add: mpf_div_def touches_set_val split: if_splits)

lemma touches_sqrt: "r \<in> X \<Longrightarrow> mpf_sqrt r a s = Inr s' \<Longrightarrow> touches X s s'"
  by (auto simp add: mpf_sqrt_def touches_set_val split: if_splits)

lemma and_then_Inr:
  "and_then m f = Inr y \<longleftrightarrow> (\<exists>x. m = Inr x \<and> f x = Inr y)"
  by (cases m) (simp_all add: and_then_def)

lemma and_next_Some_Inr:
  "and_next m f = Some (Inr y) \<longleftrightarrow> (\<exists>x. m = Some (Inr x) \<and> f x = Some (Inr y))"
  by (auto simp add: and_next_def split: option.splits sum.splits)

lemma touches_debug_output: "touches X s (debug_output t i s)"
  by (simp add: touches_def debug_output_state)

lemma touches_iteration:
  assumes "chudnovsky_iteration_gmp pi' n dep_a dep_b dep_c aux s = Inr s'"
    and "pi' \<in> X" and "aux \<in> X"
  shows "touches X s s'"
proof -
  from assms(1) obtain s1 where 1: "mpf_div aux aux dep_b (mpf_mul aux dep_a dep_c s) = Inr s1"
    and 2: "s' = mpf_add pi' pi' aux s1"
    by (auto simp add: chudnovsky_iteration_gmp_def and_then_Inr)
  have "touches X s (mpf_mul aux dep_a dep_c s)"
    using assms(3) by (rule touches_op)
  moreover have "touches X (mpf_mul aux dep_a dep_c s) s1"
    using assms(3) 1 by (rule touches_div)
  moreover have "touches X s1 s'"
    unfolding 2 using assms(2) by (rule touches_op)
  ultimately show ?thesis by (blast intro: touches_trans)
qed

lemma private_vars_mem:
  "V_local_thread_pi t \<in> private_vars t" "V_dep_a t \<in> private_vars t"
  "V_dep_a_dividend t \<in> private_vars t" "V_dep_a_divisor t \<in> private_vars t"
  "V_dep_b t \<in> private_vars t" "V_dep_c t \<in> private_vars t" "V_aux t \<in> private_vars t"
  "V_float_dividend t \<in> private_vars t" "V_float_divisor t \<in> private_vars t"
  by (simp_all add: private_vars_def)

lemma touches_step:
  "touches X s s1 \<Longrightarrow> r \<in> X \<Longrightarrow> touches X s (mpf_set_ui r n s1)"
  "touches X s s1 \<Longrightarrow> r \<in> X \<Longrightarrow> touches X s (mpf_set_z r z s1)"
  "touches X s s1 \<Longrightarrow> r \<in> X \<Longrightarrow> touches X s (mpf_neg r a s1)"
  "touches X s s1 \<Longrightarrow> r \<in> X \<Longrightarrow> touches X s (mpf_add r a b s1)"
  "touches X s s1 \<Longrightarrow> r \<in> X \<Longrightarrow> touches X s (mpf_add_ui r a n s1)"
  "touches X s s1 \<Longrightarrow> r \<in> X \<Longrightarrow> touches X s (mpf_mul r a b s1)"
  "touches X s s1 \<Longrightarrow> r \<in> X \<Longrightarrow> touches X s (mpf_mul_ui r a n s1)"
  "touches X s s1 \<Longrightarrow> r \<in> X \<Longrightarrow> touches X s (mpf_pow_ui r a n s1)"
  "touches X s s1 \<Longrightarrow> touches X s (mpf_clears rs s1)"
  "touches X s s1 \<Longrightarrow> r \<in> X \<Longrightarrow> touches X s (mpf_init_set_ui r n s1)"
  "touches X s s1 \<Longrightarrow> set rs \<subseteq> X \<Longrightarrow> touches X s (mpf_inits rs s1)"
  by (blast intro: touches_trans touches_op touches_init_set_ui touches_inits)+

lemma touches_step_div:
  "mpf_div r a b s1 = Inr s' \<Longrightarrow> touches X s s1 \<Longrightarrow> r \<in> X \<Longrightarrow> touches X s s'"
  by (blast intro: touches_trans touches_div)

lemma touches_init_dep_a:
  assumes "init_dep_a_gmp t r b s = Inr s'"
    and "r \<in> X" and "V_float_dividend t \<in> X" and "V_float_divisor t \<in> X"
  shows "touches X s s'"
proof -
  from assms(1) obtain s1 where div: "mpf_div r (V_float_dividend t) (V_float_divisor t)
      (mpf_set_z (V_float_divisor t)
         (fact (ulong (int32 (3 * b))) * fact (ulong b) ^ 3)
         (mpf_set_z (V_float_dividend t) (fact (ulong (int32 (6 * b))))
            (mpf_inits [V_float_dividend t, V_float_divisor t] s))) = Inr s1"
    and s': "s' = mpf_clears [V_float_dividend t, V_float_divisor t] s1"
    by (auto simp add: init_dep_a_gmp_def Let_def and_then_Inr)
  show ?thesis
    unfolding s'
    by (intro touches_step touches_step_div [OF div] touches_refl)
      (simp_all add: assms(2,3,4))
qed

lemma touches_prec:
  "touches X s s' \<Longrightarrow> mp_prec (mem s x) = default_prec s
     \<Longrightarrow> mp_prec (mem s' x) = default_prec s'"
  unfolding touches_def by metis

lemma init_dep_a_returns: "\<exists>s'. init_dep_a_gmp t r b s = Inr s'"
  by (simp add: init_dep_a_gmp_def Let_def and_then_def mpf_div_def mpf_set_z_def val_set_val)

lemma thread_init_returns: "\<exists>s'. thread_init t b s = Inr s'"
proof -
  obtain s1 where "init_dep_a_gmp t (V_dep_a t) (int32 (b + int t))
       (mpf_inits [V_dep_a t, V_dep_b t, V_dep_a_dividend t, V_dep_a_divisor t, V_aux t]
          (mpf_init_set_ui (V_local_thread_pi t) 0 s)) = Inr s1"
    using init_dep_a_returns by blast
  then show ?thesis
    by (simp add: thread_init_def Let_def and_then_def)
qed

lemma touches_thread_init:
  assumes "thread_init t b s = Inr s'"
  shows "touches (private_vars t) s s'"
proof -
  from assms obtain s1 where 1: "init_dep_a_gmp t (V_dep_a t) (int32 (b + int t))
       (mpf_inits [V_dep_a t, V_dep_b t, V_dep_a_dividend t, V_dep_a_divisor t, V_aux t]
          (mpf_init_set_ui (V_local_thread_pi t) 0 s)) = Inr s1"
    and s': "s' = mpf_add_ui (V_dep_c t) (V_dep_c t) (ulong A)
       (mpf_mul_ui (V_dep_c t) (V_dep_c t) (ulong (int32 (b + int t)))
          (mpf_init_set_ui (V_dep_c t) (ulong B)
             (mpf_pow_ui (V_dep_b t) V_c (ulong (int32 (b + int t))) s1)))"
    by (auto simp add: thread_init_def Let_def and_then_Inr)
  have "touches (private_vars t) s s1"
    by (rule touches_trans [OF _ touches_init_dep_a [OF 1]])
      (intro touches_step touches_refl, simp_all add: private_vars_mem)
  then show ?thesis
    unfolding s' by (intro touches_step) (simp_all add: private_vars_mem)
qed

lemma has_prec_touches: "touches X s s' \<Longrightarrow> has_prec x s \<Longrightarrow> has_prec x s'"
  unfolding has_prec_def by (rule touches_prec)

lemma has_prec_init_set_ui: "has_prec r (mpf_init_set_ui r n s)"
  by (simp add: has_prec_def mpf_init_set_ui_def)

lemma has_prec_inits: "r \<in> set rs \<Longrightarrow> has_prec r (mpf_inits rs s)"
proof (induction rs arbitrary: s)
  case Nil
  then show ?case by simp
next
  case (Cons a rs)
  show ?case
  proof (cases "r \<in> set rs")
    case True
    with Cons.IH show ?thesis by simp
  next
    case False
    with Cons.prems have "r = a" by simp
    then have "has_prec r (mpf_init a s)"
      by (simp add: mpf_init_def has_prec_init_set_ui)
    moreover have "touches UNIV (mpf_init a s) (mpf_inits rs (mpf_init a s))"
      by (rule touches_inits) simp
    ultimately show ?thesis
      by (simp add: has_prec_touches)
  qed
qed

lemma has_prec_step:
  "has_prec x s1 \<Longrightarrow> has_prec x (mpf_set_ui r n s1)"
  "has_prec x s1 \<Longrightarrow> has_prec x (mpf_set_z r z s1)"
  "has_prec x s1 \<Longrightarrow> has_prec x (mpf_neg r a s1)"
  "has_prec x s1 \<Longrightarrow> has_prec x (mpf_add r a b s1)"
  "has_prec x s1 \<Longrightarrow> has_prec x (mpf_add_ui r a n s1)"
  "has_prec x s1 \<Longrightarrow> has_prec x (mpf_mul r a b s1)"
  "has_prec x s1 \<Longrightarrow> has_prec x (mpf_mul_ui r a n s1)"
  "has_prec x s1 \<Longrightarrow> has_prec x (mpf_pow_ui r a n s1)"
  "has_prec x s1 \<Longrightarrow> has_prec x (mpf_clears rs s1)"
  "has_prec x s1 \<Longrightarrow> has_prec x (mpf_init_set_ui r n s1)"
  "has_prec x s1 \<Longrightarrow> has_prec x (mpf_inits rs s1)"
  by (auto intro: has_prec_touches [where X = UNIV] touches_op touches_init_set_ui
      touches_inits)

lemma has_prec_step_div:
  "mpf_div r a b s1 = Inr s' \<Longrightarrow> has_prec x s1 \<Longrightarrow> has_prec x s'"
  by (erule has_prec_touches [rotated]) (rule touches_div [of r UNIV], simp_all)

lemma init_dep_a_prec:
  assumes "init_dep_a_gmp t r b s = Inr s'"
  shows "has_prec (V_float_dividend t) s'" and "has_prec (V_float_divisor t) s'"
    and "has_prec x s \<Longrightarrow> has_prec x s'"
proof -
  from assms obtain s1 where div: "mpf_div r (V_float_dividend t) (V_float_divisor t)
      (mpf_set_z (V_float_divisor t)
         (fact (ulong (int32 (3 * b))) * fact (ulong b) ^ 3)
         (mpf_set_z (V_float_dividend t) (fact (ulong (int32 (6 * b))))
            (mpf_inits [V_float_dividend t, V_float_divisor t] s))) = Inr s1"
    and s': "s' = mpf_clears [V_float_dividend t, V_float_divisor t] s1"
    by (auto simp add: init_dep_a_gmp_def Let_def and_then_Inr)
  show "has_prec (V_float_dividend t) s'"
    unfolding s'
    by (intro has_prec_step has_prec_step_div [OF div] has_prec_inits) simp
  show "has_prec (V_float_divisor t) s'"
    unfolding s'
    by (intro has_prec_step has_prec_step_div [OF div] has_prec_inits) simp
  show "has_prec x s'" if "has_prec x s"
    unfolding s'
    by (intro has_prec_step has_prec_step_div [OF div] that)
qed

lemma thread_init_prec:
  assumes "thread_init t b s = Inr s'" and "x \<in> private_vars t"
  shows "has_prec x s'"
proof -
  from assms obtain s1 where 1: "init_dep_a_gmp t (V_dep_a t) (int32 (b + int t))
       (mpf_inits [V_dep_a t, V_dep_b t, V_dep_a_dividend t, V_dep_a_divisor t, V_aux t]
          (mpf_init_set_ui (V_local_thread_pi t) 0 s)) = Inr s1"
    and s': "s' = mpf_add_ui (V_dep_c t) (V_dep_c t) (ulong A)
       (mpf_mul_ui (V_dep_c t) (V_dep_c t) (ulong (int32 (b + int t)))
          (mpf_init_set_ui (V_dep_c t) (ulong B)
             (mpf_pow_ui (V_dep_b t) V_c (ulong (int32 (b + int t))) s1)))"
    by (auto simp add: thread_init_def Let_def and_then_Inr)
  note pre = init_dep_a_prec [OF 1]
  consider "x = V_local_thread_pi t"
    | "x \<in> set [V_dep_a t, V_dep_b t, V_dep_a_dividend t, V_dep_a_divisor t, V_aux t]"
    | "x = V_dep_c t" | "x = V_float_dividend t" | "x = V_float_divisor t"
    using assms(2) by (auto simp add: private_vars_def)
  then show ?thesis
  proof cases
    case 1
    show ?thesis unfolding s' 1
      by (intro has_prec_step pre(3) has_prec_init_set_ui)
  next
    case 2
    show ?thesis unfolding s'
      by (intro has_prec_step pre(3) has_prec_inits 2)
  next
    case 3
    show ?thesis unfolding s' 3
      by (intro has_prec_step(5,7) has_prec_init_set_ui)
  next
    case 4
    show ?thesis unfolding s' 4
      by (intro has_prec_step pre(1))
  next
    case 5
    show ?thesis unfolding s' 5
      by (intro has_prec_step pre(2))
  qed
qed

lemma touches_update_deps:
  assumes "update_deps t num_threads i s = Inr s'"
  shows "touches (private_vars t) s s'"
proof -
  from assms obtain s1 where div: "mpf_div (V_dep_a t) (V_dep_a_dividend t) (V_dep_a_divisor t)
      (mpf_pow_ui (V_dep_a_divisor t) (V_dep_a_divisor t) 3
        (mpf_set_ui (V_dep_a_divisor t) (ulong (int32 (i + 1)))
          (mpf_mul (V_dep_a_dividend t) (V_dep_a_dividend t) (V_dep_a t)
            (mpf_mul_ui (V_dep_a_dividend t) (V_dep_a_dividend t)
              (ulong (int32 (int32 (12 * i) + 2)))
              (mpf_mul_ui (V_dep_a_dividend t) (V_dep_a_dividend t)
                (ulong (int32 (int32 (12 * i) + 6)))
                (mpf_set_ui (V_dep_a_dividend t) (ulong (int32 (int32 (12 * i) + 10)))
                  s)))))) = Inr s1"
    and s': "s' = mpf_add_ui (V_dep_c t) (V_dep_c t) (ulong (int32 (B * num_threads)))
                   (mpf_mul (V_dep_b t) (V_dep_b t) V_c s1)"
    by (auto simp add: update_deps_def Let_def and_then_Inr)
  show ?thesis
    unfolding s'
    by (intro touches_step touches_step_div [OF div] touches_refl)
      (simp_all add: private_vars_mem)
qed

lemma touches_loop_body:
  assumes "loop_body t num_threads i s = Inr s'"
  shows "touches (private_vars t) s s'"
proof -
  from assms obtain s1 where
    1: "chudnovsky_iteration_gmp (V_local_thread_pi t) i (V_dep_a t) (V_dep_b t) (V_dep_c t)
          (V_aux t) (debug_output t i s) = Inr s1"
    and 2: "update_deps t num_threads i s1 = Inr s'"
    by (auto simp add: loop_body_def and_then_Inr)
  have "touches (private_vars t) (debug_output t i s) s1"
    using 1 by (rule touches_iteration) (simp_all add: private_vars_mem)
  with touches_debug_output have "touches (private_vars t) s s1"
    by (rule touches_trans)
  with touches_update_deps [OF 2] show ?thesis
    by (blast intro: touches_trans)
qed

lemma touches_thread_loop_aux:
  assumes "thread_loop t num_threads bend i s = Some y"
  shows "\<forall>s'. y = Inr s' \<longrightarrow> touches (private_vars t) s s'"
proof (rule thread_loop.raw_induct
    [where P = "\<lambda>t num_threads bend i s y. \<forall>s'. y = Inr s' \<longrightarrow> touches (private_vars t) s s'",
      OF _ assms])
  fix loop t num_threads bend i s y
  assume IH: "\<And>t num_threads bend i s y. loop t num_threads bend i s = Some y
      \<Longrightarrow> \<forall>s'. y = Inr s' \<longrightarrow> touches (private_vars t) s s'"
    and eq: "(if i < bend
              then (case loop_body t num_threads i s of
                      Inl e \<Rightarrow> Some (Inl e)
                    | Inr s' \<Rightarrow> loop t num_threads bend (int32 (i + num_threads)) s')
              else Some (Inr s)) = Some y"
  show "\<forall>s'. y = Inr s' \<longrightarrow> touches (private_vars t) s s'"
  proof (cases "i < bend")
    case False
    with eq show ?thesis by (auto simp add: touches_refl)
  next
    case True
    show ?thesis
    proof (cases "loop_body t num_threads i s")
      case (Inl e)
      with True eq show ?thesis by auto
    next
      case (Inr s1)
      with True eq have "loop t num_threads bend (int32 (i + num_threads)) s1 = Some y"
        by simp
      from IH [OF this] touches_loop_body [OF Inr] show ?thesis
        by (blast intro: touches_trans)
    qed
  qed
qed

lemma touches_thread_loop:
  "thread_loop t num_threads bend i s = Some (Inr s') \<Longrightarrow> touches (private_vars t) s s'"
  using touches_thread_loop_aux by blast

lemma omp_parallel_for_Inr:
  assumes "omp_parallel_for t num_threads bend i s = Some (Inr s')"
  shows "s' = s \<or> thread_loop t num_threads bend i s = Some (Inr s')"
  using assms by (auto simp add: omp_parallel_for_def split: sum.splits if_splits)

lemma touches_omp_parallel_for:
  assumes "omp_parallel_for t num_threads bend i s = Some (Inr s')"
  shows "touches (private_vars t) s s'"
  using omp_parallel_for_Inr [OF assms] touches_thread_loop [of t num_threads bend i s s']
  by (auto simp add: touches_refl)

lemma val_init_set_ui:
  "val x (mpf_init_set_ui r n s) = (if x = r then real n else val x s)"
  by (simp add: val_def mpf_init_set_ui_def)

lemma val_init: "val x (mpf_init r s) = (if x = r then 0 else val x s)"
  by (simp add: mpf_init_def val_init_set_ui)

lemma mpf_div_Inr:
  "mpf_div r a b s = Inr s' \<longleftrightarrow> val b s \<noteq> 0 \<and> s' = set_val r (val a s / val b s) s"
  by (auto simp add: mpf_div_def)

lemmas mpf_op_defs = mpf_set_ui_def mpf_set_z_def mpf_neg_def mpf_add_def mpf_add_ui_def
  mpf_mul_def mpf_mul_ui_def mpf_pow_ui_def mpf_clears_def

lemmas val_simps = val_set_val val_init_set_ui val_init val_debug_output

lemma init_dep_a_val:
  assumes "init_dep_a_gmp t r b s = Inr s'"
  shows "val r s' = real_of_int (fact (ulong (int32 (6 * b))))
            / real_of_int (fact (ulong (int32 (3 * b))) * fact (ulong b) ^ 3)"
    and "x \<notin> {r, V_float_dividend t, V_float_divisor t} \<Longrightarrow> val x s' = val x s"
  using assms
  by (auto simp add: init_dep_a_gmp_def Let_def and_then_Inr mpf_div_Inr mpf_op_defs val_simps)

lemma thread_init_vals:
  assumes "thread_init t b s = Inr s'"
  shows "val (V_local_thread_pi t) s' = 0"
    and "val (V_dep_a t) s' = real_of_int (fact (ulong (int32 (6 * int32 (b + int t)))))
            / real_of_int (fact (ulong (int32 (3 * int32 (b + int t))))
                 * fact (ulong (int32 (b + int t))) ^ 3)"
    and "val (V_dep_b t) s' = val V_c s ^ ulong (int32 (b + int t))"
    and "val (V_dep_c t) s' = real (ulong B) * real (ulong (int32 (b + int t))) + real (ulong A)"
proof -
  from assms obtain s1 where 1: "init_dep_a_gmp t (V_dep_a t) (int32 (b + int t))
       (mpf_inits [V_dep_a t, V_dep_b t, V_dep_a_dividend t, V_dep_a_divisor t, V_aux t]
          (mpf_init_set_ui (V_local_thread_pi t) 0 s)) = Inr s1"
    and s': "s' = mpf_add_ui (V_dep_c t) (V_dep_c t) (ulong A)
       (mpf_mul_ui (V_dep_c t) (V_dep_c t) (ulong (int32 (b + int t)))
          (mpf_init_set_ui (V_dep_c t) (ulong B)
             (mpf_pow_ui (V_dep_b t) V_c (ulong (int32 (b + int t))) s1)))"
    by (auto simp add: thread_init_def Let_def and_then_Inr)
  note v = init_dep_a_val [OF 1]
  show "val (V_local_thread_pi t) s' = 0"
    by (simp add: s' mpf_op_defs val_simps v(2))
  show "val (V_dep_a t) s' = real_of_int (fact (ulong (int32 (6 * int32 (b + int t)))))
            / real_of_int (fact (ulong (int32 (3 * int32 (b + int t))))
                 * fact (ulong (int32 (b + int t))) ^ 3)"
    by (simp add: s' mpf_op_defs val_simps v(1))
  show "val (V_dep_b t) s' = val V_c s ^ ulong (int32 (b + int t))"
    by (simp add: s' mpf_op_defs val_simps v(2))
  show "val (V_dep_c t) s' = real (ulong B) * real (ulong (int32 (b + int t))) + real (ulong A)"
    by (simp add: s' mpf_op_defs val_simps)
qed

section \<open>Frame and precision of the parallel region\<close>

lemma omp_thread_Inr:
  assumes "omp_thread t num_threads bstart bend s = Some (Inr s')"
  obtains s1 s2 where "thread_init t bstart s = Inr s1"
    and "omp_parallel_for t num_threads bend (int32 (bstart + int t)) s1 = Some (Inr s2)"
    and "s' = mpf_add V_local_proc_pi V_local_proc_pi (V_local_thread_pi t) s2"
  using assms
  by (auto simp add: omp_thread_def and_next_Some_Inr Let_def mpf_clears_def)

lemma touches_omp_thread:
  assumes "omp_thread t num_threads bstart bend s = Some (Inr s')"
  shows "touches (insert V_local_proc_pi (private_vars t)) s s'"
proof -
  from assms obtain s1 s2 where 1: "thread_init t bstart s = Inr s1"
    and 2: "omp_parallel_for t num_threads bend (int32 (bstart + int t)) s1 = Some (Inr s2)"
    and 3: "s' = mpf_add V_local_proc_pi V_local_proc_pi (V_local_thread_pi t) s2"
    by (rule omp_thread_Inr)
  have "touches (private_vars t) s s2"
    using touches_thread_init [OF 1] touches_omp_parallel_for [OF 2] by (rule touches_trans)
  then have "touches (insert V_local_proc_pi (private_vars t)) s s2"
    by (rule touches_mono) auto
  then show ?thesis
    unfolding 3 by (rule touches_step) simp
qed

lemma has_prec_omp_thread:
  assumes "omp_thread t num_threads bstart bend s = Some (Inr s')" and "x \<in> private_vars t"
  shows "has_prec x s'"
proof -
  from assms(1) obtain s1 s2 where 1: "thread_init t bstart s = Inr s1"
    and 2: "omp_parallel_for t num_threads bend (int32 (bstart + int t)) s1 = Some (Inr s2)"
    and 3: "s' = mpf_add V_local_proc_pi V_local_proc_pi (V_local_thread_pi t) s2"
    by (rule omp_thread_Inr)
  have "has_prec x s2"
    using touches_omp_parallel_for [OF 2] thread_init_prec [OF 1 assms(2)]
    by (rule has_prec_touches)
  then show ?thesis
    unfolding 3 by (rule has_prec_step)
qed

lemma omp_parallel_Cons_Inr:
  assumes "omp_parallel (t # ts) num_threads bstart bend s = Some (Inr s')"
  obtains s1 where "omp_thread t num_threads bstart bend s = Some (Inr s1)"
    and "omp_parallel ts num_threads bstart bend s1 = Some (Inr s')"
  using assms by (auto simp add: and_next_Some_Inr)

lemma touches_omp_parallel:
  assumes "omp_parallel ts num_threads bstart bend s = Some (Inr s')"
  shows "touches (team_vars ts) s s'"
  using assms
proof (induction ts arbitrary: s)
  case Nil
  then show ?case by (simp add: touches_refl)
next
  case (Cons t ts)
  from Cons.prems obtain s1 where 1: "omp_thread t num_threads bstart bend s = Some (Inr s1)"
    and 2: "omp_parallel ts num_threads bstart bend s1 = Some (Inr s')"
    by (rule omp_parallel_Cons_Inr)
  have "touches (team_vars (t # ts)) s s1"
    using touches_omp_thread [OF 1] by (rule touches_mono) (auto simp add: team_vars_def)
  moreover have "touches (team_vars (t # ts)) s1 s'"
    using Cons.IH [OF 2] by (rule touches_mono) (auto simp add: team_vars_def)
  ultimately show ?case by (rule touches_trans)
qed

lemma has_prec_omp_parallel:
  assumes "omp_parallel ts num_threads bstart bend s = Some (Inr s')"
    and "t \<in> set ts" and "x \<in> private_vars t"
  shows "has_prec x s'"
  using assms(1,2)
proof (induction ts arbitrary: s)
  case Nil
  then show ?case by simp
next
  case (Cons u ts)
  from Cons.prems(1) obtain s1 where 1: "omp_thread u num_threads bstart bend s = Some (Inr s1)"
    and 2: "omp_parallel ts num_threads bstart bend s1 = Some (Inr s')"
    by (rule omp_parallel_Cons_Inr)
  show ?case
  proof (cases "t \<in> set ts")
    case True
    with Cons.IH [OF 2] show ?thesis by simp
  next
    case False
    with Cons.prems(2) have "t = u" by simp
    with 1 assms(3) have "has_prec x s1"
      by (simp add: has_prec_omp_thread)
    with touches_omp_parallel [OF 2] show ?thesis
      by (rule has_prec_touches)
  qed
qed

lemma chudnovsky_summation_Inr:
  assumes "chudnovsky_summation num_procs proc_id num_iterations num_threads s = Some (Inr s')"
  obtains bsize where "block_size num_iterations num_procs = Inr bsize"
    and "omp_parallel (omp_team num_threads) num_threads (block_start proc_id bsize)
           (block_end num_iterations (block_start proc_id bsize) bsize)
           (mpf_pow_ui V_c V_c (ulong (int32 (3 * num_threads)))
              (mpf_neg V_c V_c
                 (mpf_init_set_ui V_c (ulong C)
                    (mpf_init_set_ui V_e (ulong E)
                       (mpf_init_set_ui V_local_proc_pi 0 s))))) = Some (Inr s')"
  using assms
  by (auto simp add: chudnovsky_summation_def and_next_Some_Inr Let_def)

lemma team_vars_not:
  "V_e \<notin> team_vars ts" "V_c \<notin> team_vars ts" "V_pi \<notin> team_vars ts"
  by (simp_all add: team_vars_def private_vars_def)

lemma summation_facts:
  assumes "chudnovsky_summation num_procs proc_id num_iterations num_threads s = Some (Inr s')"
  shows "touches (process_vars num_threads) s s'"
    and "val V_e s' = real (ulong E)"
    and "val V_c s' = (- real (ulong C)) ^ ulong (int32 (3 * num_threads))"
    and "x \<in> process_vars num_threads \<Longrightarrow> has_prec x s'"
proof -
  define s0 where "s0 = mpf_pow_ui V_c V_c (ulong (int32 (3 * num_threads)))
              (mpf_neg V_c V_c
                 (mpf_init_set_ui V_c (ulong C)
                    (mpf_init_set_ui V_e (ulong E)
                       (mpf_init_set_ui V_local_proc_pi 0 s))))"
  from assms obtain bsize where
    par: "omp_parallel (omp_team num_threads) num_threads (block_start proc_id bsize)
           (block_end num_iterations (block_start proc_id bsize) bsize) s0 = Some (Inr s')"
    unfolding s0_def by (rule chudnovsky_summation_Inr)
  note t = touches_omp_parallel [OF par]
  have t0: "touches (process_vars num_threads) s s0"
    unfolding s0_def
    by (intro touches_step touches_refl) (simp_all add: process_vars_def team_vars_def)
  show "touches (process_vars num_threads) s s'"
    using t0 by (rule touches_trans) (rule touches_mono [OF t], auto simp add: process_vars_def)
  have keep: "mem s' x = mem s0 x" if "x \<notin> team_vars (omp_team num_threads)" for x
    using t that by (simp add: touches_def)
  show "val V_e s' = real (ulong E)"
    by (simp add: val_def keep team_vars_not)
      (simp add: s0_def mpf_op_defs val_simps flip: val_def)
  show "val V_c s' = (- real (ulong C)) ^ ulong (int32 (3 * num_threads))"
    by (simp add: val_def keep team_vars_not)
      (simp add: s0_def mpf_op_defs val_simps flip: val_def)
  show "has_prec x s'" if x: "x \<in> process_vars num_threads"
  proof -
    consider "x = V_e" | "x = V_c" | "x = V_local_proc_pi"
      | t where "t \<in> set (omp_team num_threads)" "x \<in> private_vars t"
      using x by (auto simp add: process_vars_def team_vars_def)
    then show ?thesis
    proof cases
      case 1
      have "has_prec V_e s0"
        unfolding s0_def by (intro has_prec_step(3,8,10) has_prec_init_set_ui)
      with t show ?thesis unfolding 1 by (rule has_prec_touches)
    next
      case 2
      have "has_prec V_c s0"
        unfolding s0_def by (intro has_prec_step(3,8) has_prec_init_set_ui)
      with t show ?thesis unfolding 2 by (rule has_prec_touches)
    next
      case 3
      have "has_prec V_local_proc_pi s0"
        unfolding s0_def by (intro has_prec_step(3,8,10) has_prec_init_set_ui)
      with t show ?thesis unfolding 3 by (rule has_prec_touches)
    next
      case 4
      with par show ?thesis by (simp add: has_prec_omp_parallel)
    qed
  qed
qed

section \<open>The run of a process\<close>

lemma block_assignment:
  assumes "1 \<le> num_iterations" and "1 \<le> num_procs"
    and "0 \<le> proc_id" and "proc_id < num_procs"
    and "num_iterations + num_procs \<le> INT_MAX"
  shows "\<exists>bsize. block_size num_iterations num_procs = Inr bsize
           \<and> bsize = \<lceil>real_of_int num_iterations / real_of_int num_procs\<rceil>
           \<and> block_start proc_id bsize = proc_id * bsize
           \<and> block_end num_iterations (block_start proc_id bsize) bsize
               = min ((proc_id + 1) * bsize) num_iterations"
proof -
  define bsize where "bsize = (num_iterations + num_procs - 1) div num_procs"
  have sum1: "int32 (num_iterations + num_procs) = num_iterations + num_procs"
    using assms by (intro int32_id) (simp_all add: INT_MIN_def INT_MAX_def)
  have sum2: "int32 (num_iterations + num_procs - 1) = num_iterations + num_procs - 1"
    using assms by (intro int32_id) (simp_all add: INT_MIN_def INT_MAX_def)
  have bs: "block_size num_iterations num_procs = Inr bsize"
    using assms by (simp add: block_size_def sum1 sum2 c_div_def c_quot_pos bsize_def)
  have ceil: "bsize = \<lceil>real_of_int num_iterations / real_of_int num_procs\<rceil>"
    using assms by (simp add: bsize_def ceiling_quotient)
  have nonneg: "0 \<le> bsize"
    using assms by (simp add: bsize_def pos_imp_zdiv_nonneg_iff)
  have "bsize * num_procs \<le> num_iterations + num_procs - 1"
    using assms div_times_le [of num_procs "num_iterations + num_procs - 1"]
    by (simp add: bsize_def)
  moreover have "(proc_id + 1) * bsize \<le> num_procs * bsize"
    using assms nonneg by (intro mult_right_mono) simp_all
  ultimately have top: "(proc_id + 1) * bsize \<le> INT_MAX"
    using assms by (simp add: mult.commute)
  have pos: "0 \<le> proc_id * bsize"
    using assms nonneg by simp
  have "proc_id * bsize \<le> (proc_id + 1) * bsize"
    using nonneg by (simp add: distrib_right)
  with pos top have start: "block_start proc_id bsize = proc_id * bsize"
    unfolding block_start_def
    by (intro int32_id) (simp_all add: INT_MIN_def)
  have "int32 (proc_id * bsize + bsize) = proc_id * bsize + bsize"
    using pos nonneg top
    by (intro int32_id) (simp_all add: INT_MIN_def distrib_right)
  then have "block_end num_iterations (block_start proc_id bsize) bsize
      = min ((proc_id + 1) * bsize) num_iterations"
    by (simp add: block_end_def start distrib_right min_def)
  with bs ceil start show ?thesis by blast
qed

lemma ulong_pos: "0 < x \<Longrightarrow> x \<le> INT_MAX \<Longrightarrow> ulong x \<noteq> 0"
  by (simp add: ulong_def INT_MAX_def)

lemma loop_body_returns:
  assumes "0 \<le> i" and "i < INT_MAX" and "val (V_dep_b t) s \<noteq> 0" and "val V_c s \<noteq> 0"
  shows "\<exists>s'. loop_body t num_threads i s = Inr s' \<and> val (V_dep_b t) s' \<noteq> 0
            \<and> val V_c s' = val V_c s"
proof -
  have "int32 (i + 1) = i + 1"
    using assms(1,2) by (intro int32_id) (simp_all add: INT_MIN_def INT_MAX_def)
  then have nz: "real (ulong (int32 (i + 1))) \<noteq> 0"
    using assms(1,2) ulong_pos [of "i + 1"] by simp
  show ?thesis
    using assms(3,4) nz
    by (simp add: loop_body_def chudnovsky_iteration_gmp_def update_deps_def Let_def
        and_then_def mpf_div_def mpf_op_defs val_simps)
qed

lemma thread_loop_returns:
  assumes "1 \<le> num_threads" and "0 \<le> i" and "bend + num_threads \<le> INT_MAX"
    and "val (V_dep_b t) s \<noteq> 0" and "val V_c s \<noteq> 0"
  shows "\<exists>s'. thread_loop t num_threads bend i s = Some (Inr s')"
  using assms(2,4,5)
proof (induction "nat (bend - i)" arbitrary: i s rule: less_induct)
  case less
  show ?case
  proof (cases "i < bend")
    case False
    then show ?thesis by (simp add: thread_loop.simps)
  next
    case True
    have "i < INT_MAX"
      using True assms(1,3) by simp
    with less.prems obtain s1 where body: "loop_body t num_threads i s = Inr s1"
      and b: "val (V_dep_b t) s1 \<noteq> 0" and c: "val V_c s1 \<noteq> 0"
      using loop_body_returns [of i t s num_threads] by auto
    have next_i: "int32 (i + num_threads) = i + num_threads"
      using True assms(1,3) less.prems(1)
      by (intro int32_id) (simp_all add: INT_MIN_def)
    have "\<exists>s'. thread_loop t num_threads bend (i + num_threads) s1 = Some (Inr s')"
      using True assms(1) less.prems(1) b c
      by (intro less.hyps) simp_all
    then show ?thesis
      using True body next_i by (subst thread_loop.simps) simp
  qed
qed


lemma omp_parallel_for_empty:
  assumes "1 \<le> num_threads" and "bend \<le> i"
  shows "omp_parallel_for t num_threads bend i s = Some (Inr s)"
proof -
  have "thread_loop t num_threads bend i s = Some (Inr s)"
    using assms(2) by (subst thread_loop.simps) simp
  with assms(1) show ?thesis
    by (simp add: omp_parallel_for_def c_div_def)
qed

lemma omp_parallel_for_loop:
  assumes "1 \<le> num_threads" and "0 \<le> i" and "bend + num_threads \<le> INT_MAX"
  shows "omp_parallel_for t num_threads bend i s = thread_loop t num_threads bend i s"
proof (cases "i < bend")
  case False
  then have "thread_loop t num_threads bend i s = Some (Inr s)"
    by (subst thread_loop.simps) simp
  with False assms(1) show ?thesis
    by (simp add: omp_parallel_for_empty)
next
  case True
  define d where "d = num_threads - 1 + bend - i"
  have "int32 (num_threads - 1) = num_threads - 1"
    using assms True by (intro int32_id) (simp_all add: INT_MIN_def)
  moreover have "int32 (num_threads - 1 + bend) = num_threads - 1 + bend"
    using assms True by (intro int32_id) (simp_all add: INT_MIN_def)
  moreover have "int32 (num_threads - 1 + bend - i) = num_threads - 1 + bend - i"
    using assms True by (intro int32_id) (simp_all add: INT_MIN_def)
  ultimately have count: "int32 (int32 (int32 (num_threads - 1) + bend) - i) = d"
    by (simp add: d_def)
  have d: "num_threads \<le> d"
    using True by (simp add: d_def)
  then have "0 < d div num_threads"
    using assms(1) by (simp add: pos_imp_zdiv_pos_iff)
  then have "0 < c_quot d num_threads"
    using assms(1) d by (simp add: c_quot_def)
  moreover have "c_div d num_threads = Inr (c_quot d num_threads)"
    using assms(1) by (simp add: c_div_def)
  ultimately show ?thesis
    by (simp add: omp_parallel_for_def count)
qed

lemma omp_parallel_for_zero_step: "omp_parallel_for t 0 bend i s = Some (Inl SIGFPE)"
  by (simp add: omp_parallel_for_def c_div_def)

lemma touches_mem: "touches X s s' \<Longrightarrow> x \<notin> X \<Longrightarrow> mem s' x = mem s x"
  by (simp add: touches_def)

lemma touches_val: "touches X s s' \<Longrightarrow> x \<notin> X \<Longrightarrow> val x s' = val x s"
  by (simp add: touches_def val_def)

lemma private_vars_not:
  "V_pi \<notin> private_vars t" "V_e \<notin> private_vars t" "V_c \<notin> private_vars t"
  "V_local_proc_pi \<notin> private_vars t"
  by (simp_all add: private_vars_def)

lemma omp_thread_returns:
  assumes "1 \<le> num_threads" and "0 \<le> bstart + int t" and "bstart + int t \<le> INT_MAX"
    and "bend + num_threads \<le> INT_MAX" and "val V_c s \<noteq> 0"
  shows "\<exists>s'. omp_thread t num_threads bstart bend s = Some (Inr s')"
proof -
  obtain s1 where init: "thread_init t bstart s = Inr s1"
    using thread_init_returns by blast
  have i: "int32 (bstart + int t) = bstart + int t"
    using assms(2,3) by (intro int32_id) (simp_all add: INT_MIN_def)
  have c: "val V_c s1 = val V_c s"
    using touches_thread_init [OF init] by (rule touches_val) (rule private_vars_not)
  have "val (V_dep_b t) s1 \<noteq> 0"
    using assms(5) by (simp add: thread_init_vals(3) [OF init])
  with assms c obtain s2 where
    "thread_loop t num_threads bend (bstart + int t) s1 = Some (Inr s2)"
    using thread_loop_returns [of num_threads "bstart + int t" bend t s1] by auto
  with init i assms(1,2,4) show ?thesis
    by (simp add: omp_thread_def and_next_def Let_def omp_parallel_for_loop)
qed

lemma omp_parallel_returns:
  assumes "1 \<le> num_threads" and "0 \<le> bstart" and "\<forall>t \<in> set ts. bstart + int t \<le> INT_MAX"
    and "bend + num_threads \<le> INT_MAX" and "val V_c s \<noteq> 0"
  shows "\<exists>s'. omp_parallel ts num_threads bstart bend s = Some (Inr s')"
  using assms(3,5)
proof (induction ts arbitrary: s)
  case Nil
  show ?case by simp
next
  case (Cons t ts)
  obtain s1 where 1: "omp_thread t num_threads bstart bend s = Some (Inr s1)"
    using omp_thread_returns [of num_threads bstart t bend s] assms(1,2,4) Cons.prems
    by auto
  have "val V_c s1 = val V_c s"
    using touches_omp_thread [OF 1] by (rule touches_val) (simp add: private_vars_not)
  with Cons.prems have "\<exists>s'. omp_parallel ts num_threads bstart bend s1 = Some (Inr s')"
    by (intro Cons.IH) simp_all
  with 1 show ?case
    by (auto simp add: and_next_def)
qed

lemma omp_team_bound: "t \<in> set (omp_team num_threads) \<Longrightarrow> int t < max 1 num_threads"
  by (auto simp add: omp_team_def split: if_splits)

lemma ulong_consts:
  "ulong A = 13591409" "ulong B = 545140134" "ulong C = 640320" "ulong D = 426880"
  "ulong E = 10005"
  by (simp_all add: ulong_def A_def B_def C_def D_def E_def)

lemma summation_returns:
  assumes "1 \<le> num_iterations" and "1 \<le> num_procs"
    and "0 \<le> proc_id" and "proc_id < num_procs" and "1 \<le> num_threads"
    and "num_iterations + num_procs + num_threads \<le> INT_MAX"
  shows "\<exists>s'. chudnovsky_summation num_procs proc_id num_iterations num_threads s
            = Some (Inr s')"
proof -
  from assms obtain bsize where bs: "block_size num_iterations num_procs = Inr bsize"
    and ceil: "bsize = \<lceil>real_of_int num_iterations / real_of_int num_procs\<rceil>"
    and start: "block_start proc_id bsize = proc_id * bsize"
    and bend: "block_end num_iterations (block_start proc_id bsize) bsize
               = min ((proc_id + 1) * bsize) num_iterations"
    using block_assignment [of num_iterations num_procs proc_id] by auto
  define s0 where "s0 = mpf_pow_ui V_c V_c (ulong (int32 (3 * num_threads)))
              (mpf_neg V_c V_c
                 (mpf_init_set_ui V_c (ulong C)
                    (mpf_init_set_ui V_e (ulong E)
                       (mpf_init_set_ui V_local_proc_pi 0 s))))"
  have c: "val V_c s0 \<noteq> 0"
    by (simp add: s0_def mpf_op_defs val_simps ulong_consts)
  have "0 \<le> bsize"
    using assms(1,2) unfolding ceil by (simp add: ceiling_quotient pos_imp_zdiv_nonneg_iff)
  then have s_nonneg: "0 \<le> block_start proc_id bsize"
    using assms(3) by (simp add: start)
  have "block_start proc_id bsize \<le> (proc_id + 1) * bsize"
    using \<open>0 \<le> bsize\<close> by (simp add: start distrib_right)
  also have "\<dots> \<le> num_procs * bsize"
    using assms(4) \<open>0 \<le> bsize\<close> by (intro mult_right_mono) simp_all
  also have "\<dots> \<le> num_iterations + num_procs - 1"
    using assms(2) div_times_le [of num_procs "num_iterations + num_procs - 1"]
    unfolding ceil by (simp add: ceiling_quotient mult.commute)
  finally have s_le: "block_start proc_id bsize \<le> num_iterations + num_procs - 1" .
  have team: "\<forall>t \<in> set (omp_team num_threads). block_start proc_id bsize + int t \<le> INT_MAX"
    using s_le assms(5,6) by (auto dest!: omp_team_bound)
  have e_le: "block_end num_iterations (block_start proc_id bsize) bsize + num_threads
      \<le> INT_MAX"
    using assms(2,6) by (simp add: bend)
  obtain s' where "omp_parallel (omp_team num_threads) num_threads (block_start proc_id bsize)
      (block_end num_iterations (block_start proc_id bsize) bsize) s0 = Some (Inr s')"
    using omp_parallel_returns [OF assms(5) s_nonneg team e_le c] by blast
  then show ?thesis
    using bs by (simp add: chudnovsky_summation_def and_next_def Let_def s0_def)
qed

lemma process_vars_not: "V_pi \<notin> process_vars num_threads"
  by (simp add: process_vars_def team_vars_not)

lemma algorithm_non_root:
  assumes "chudnovsky_summation num_procs proc_id num_iterations num_threads s = Some (Inr s1)"
    and "proc_id \<noteq> 0"
  shows "chudnovsky_algorithm_gmp recbuffer num_procs proc_id num_iterations num_threads s
           = Some (Inr (MPI_Reduce (pack_gmp (mem s1 V_local_proc_pi)) s1))"
  using assms
  by (simp add: chudnovsky_algorithm_gmp_def and_next_def Let_def mpf_clears_def)

lemma algorithm_root:
  assumes "chudnovsky_summation num_procs 0 num_iterations num_threads s = Some (Inr s1)"
    and "mp_val recbuffer \<noteq> 0"
  shows "chudnovsky_algorithm_gmp recbuffer num_procs 0 num_iterations num_threads s
           = Some (Inr (set_val V_pi (sqrt 10005 * 426880 / mp_val recbuffer)
                (set_val V_e (sqrt 10005 * 426880)
                  (set_val V_e (sqrt 10005)
                    (set_val V_pi (mp_val recbuffer)
                      (MPI_Reduce (pack_gmp (mem s1 V_local_proc_pi)) s1))))))"
proof -
  have e: "val V_e s1 = 10005"
    using summation_facts(2) [OF assms(1)] by (simp add: ulong_consts)
  define s2 where "s2 = MPI_Reduce (pack_gmp (mem s1 V_local_proc_pi)) s1"
  have e2: "val V_e s2 = 10005"
    using e by (simp add: s2_def MPI_Reduce_def val_def)
  have "and_then (mpf_sqrt V_e V_e (unpack_gmp recbuffer V_pi s2))
          (\<lambda>s. mpf_div V_pi V_e V_pi (mpf_mul_ui V_e V_e (ulong D) s))
        = Inr (set_val V_pi (sqrt 10005 * 426880 / mp_val recbuffer)
                (set_val V_e (sqrt 10005 * 426880)
                  (set_val V_e (sqrt 10005)
                    (set_val V_pi (mp_val recbuffer) s2))))"
    using assms(2) e2
    by (simp add: and_then_def mpf_sqrt_def unpack_gmp_def mpf_div_def mpf_op_defs val_simps
        ulong_consts)
  then show ?thesis
    using assms(1)
    by (simp add: chudnovsky_algorithm_gmp_def and_next_def Let_def mpf_clears_def s2_def)
qed




lemma summation_zero_threads:
  assumes "block_size num_iterations num_procs = Inr bsize"
  shows "chudnovsky_summation num_procs proc_id num_iterations 0 s = Some (Inl SIGFPE)"
proof -
  have "omp_thread 0 0 bstart bend s0 = Some (Inl SIGFPE)" for bstart bend s0
  proof -
    obtain s1 where "thread_init 0 bstart s0 = Inr s1"
      using thread_init_returns by blast
    then show ?thesis
      by (simp add: omp_thread_def and_next_def omp_parallel_for_zero_step)
  qed
  moreover have "omp_team 0 = [0]"
    by (simp add: omp_team_def)
  ultimately show ?thesis
    using assms by (simp add: chudnovsky_summation_def and_next_def Let_def)
qed


section \<open>The content of \<open>pi\<close> does not matter before the root branch\<close>

lemma poke_simps:
  "default_prec (poke x s) = default_prec s"
  "a \<noteq> V_pi \<Longrightarrow> val a (poke x s) = val a s"
  "a \<noteq> V_pi \<Longrightarrow> mem (poke x s) a = mem s a"
  "r \<noteq> V_pi \<Longrightarrow> set_val r v (poke x s) = poke x (set_val r v s)"
  "r \<noteq> V_pi \<Longrightarrow> mpf_init_set_ui r n (poke x s) = poke x (mpf_init_set_ui r n s)"
  "r \<noteq> V_pi \<Longrightarrow> mpf_init r (poke x s) = poke x (mpf_init r s)"
  "MPI_Reduce b (poke x s) = poke x (MPI_Reduce b s)"
  by (auto simp add: poke_def val_def set_val_def mpf_init_set_ui_def mpf_init_def
      MPI_Reduce_def fun_upd_twist)

lemma poke_div:
  "r \<noteq> V_pi \<Longrightarrow> a \<noteq> V_pi \<Longrightarrow> b \<noteq> V_pi \<Longrightarrow>
     mpf_div r a b (poke x s) = map_sum id (poke x) (mpf_div r a b s)"
  by (simp add: mpf_div_def poke_simps)

lemma and_then_map:
  assumes "\<And>s. f (poke x s) = map_sum id (poke x) (f s)"
  shows "and_then (map_sum id (poke x) m) f = map_sum id (poke x) (and_then m f)"
  using assms by (cases m) (simp_all add: and_then_def)

lemma poke_iteration:
  assumes "pi' \<noteq> V_pi" "dep_a \<noteq> V_pi" "dep_b \<noteq> V_pi" "dep_c \<noteq> V_pi" "aux \<noteq> V_pi"
  shows "chudnovsky_iteration_gmp pi' n dep_a dep_b dep_c aux (poke x s)
     = map_sum id (poke x) (chudnovsky_iteration_gmp pi' n dep_a dep_b dep_c aux s)"
  using assms
  by (simp add: chudnovsky_iteration_gmp_def mpf_op_defs poke_simps poke_div and_then_map)

lemma poke_init_dep_a:
  assumes "r \<noteq> V_pi"
  shows "init_dep_a_gmp t r b (poke x s) = map_sum id (poke x) (init_dep_a_gmp t r b s)"
  using assms
  by (simp add: init_dep_a_gmp_def Let_def mpf_op_defs poke_simps poke_div and_then_map)

lemma poke_thread_init:
  "thread_init t b (poke x s) = map_sum id (poke x) (thread_init t b s)"
  by (simp add: thread_init_def Let_def mpf_op_defs poke_simps poke_init_dep_a and_then_map)

lemma poke_update_deps:
  "update_deps t num_threads i (poke x s) = map_sum id (poke x) (update_deps t num_threads i s)"
  by (simp add: update_deps_def Let_def mpf_op_defs poke_simps poke_div and_then_map)

lemma poke_printf: "printf line (poke x s) = poke x (printf line s)"
  by (simp add: printf_def poke_def)

lemma poke_gmp_printf:
  "v \<noteq> V_pi \<Longrightarrow> gmp_printf before v after (poke x s) = poke x (gmp_printf before v after s)"
  by (simp add: gmp_printf_def poke_def val_def)

lemma poke_debug_output: "debug_output t i (poke x s) = poke x (debug_output t i s)"
  by (simp add: debug_output_def Let_def poke_printf poke_gmp_printf)

lemma poke_loop_body:
  "loop_body t num_threads i (poke x s) = map_sum id (poke x) (loop_body t num_threads i s)"
  by (simp add: loop_body_def poke_debug_output poke_iteration poke_update_deps and_then_map)

lemma poke_thread_loop_aux:
  assumes "thread_loop t num_threads bend i s = Some y"
  shows "thread_loop t num_threads bend i (poke x s) = Some (map_sum id (poke x) y)"
proof (rule thread_loop.raw_induct
    [where P = "\<lambda>t num_threads bend i s y.
        thread_loop t num_threads bend i (poke x s) = Some (map_sum id (poke x) y)",
      OF _ assms])
  fix loop t num_threads bend i s y
  assume IH: "\<And>t num_threads bend i s y. loop t num_threads bend i s = Some y
      \<Longrightarrow> thread_loop t num_threads bend i (poke x s) = Some (map_sum id (poke x) y)"
    and eq: "(if i < bend
              then (case loop_body t num_threads i s of
                      Inl e \<Rightarrow> Some (Inl e)
                    | Inr s' \<Rightarrow> loop t num_threads bend (int32 (i + num_threads)) s')
              else Some (Inr s)) = Some y"
  show "thread_loop t num_threads bend i (poke x s) = Some (map_sum id (poke x) y)"
  proof (cases "i < bend")
    case False
    with eq show ?thesis by (subst thread_loop.simps) auto
  next
    case True
    show ?thesis
    proof (cases "loop_body t num_threads i s")
      case (Inl e)
      with True eq show ?thesis
        by (subst thread_loop.simps) (auto simp add: poke_loop_body)
    next
      case (Inr s1)
      with True eq have "loop t num_threads bend (int32 (i + num_threads)) s1 = Some y"
        by simp
      from IH [OF this] True Inr show ?thesis
        by (subst thread_loop.simps) (simp add: poke_loop_body)
    qed
  qed
qed

lemma poke_omp_parallel_for:
  assumes "omp_parallel_for t num_threads bend i s = Some (Inr s')"
  shows "omp_parallel_for t num_threads bend i (poke x s) = Some (Inr (poke x s'))"
proof (cases "c_div (int32 (int32 (int32 (num_threads - 1) + bend) - i)) num_threads")
  case (Inl e)
  with assms show ?thesis by (simp add: omp_parallel_for_def)
next
  case (Inr n)
  show ?thesis
  proof (cases "n \<le> 0")
    case True
    with Inr assms show ?thesis by (auto simp add: omp_parallel_for_def)
  next
    case False
    with Inr assms have "thread_loop t num_threads bend i s = Some (Inr s')"
      by (simp add: omp_parallel_for_def)
    from poke_thread_loop_aux [OF this, of x] Inr False show ?thesis
      by (simp add: omp_parallel_for_def)
  qed
qed

lemma poke_omp_thread:
  assumes "omp_thread t num_threads bstart bend s = Some (Inr s')"
  shows "omp_thread t num_threads bstart bend (poke x s) = Some (Inr (poke x s'))"
proof -
  from assms obtain s1 s2 where 1: "thread_init t bstart s = Inr s1"
    and 2: "omp_parallel_for t num_threads bend (int32 (bstart + int t)) s1 = Some (Inr s2)"
    and 3: "s' = mpf_add V_local_proc_pi V_local_proc_pi (V_local_thread_pi t) s2"
    by (rule omp_thread_Inr)
  have "thread_init t bstart (poke x s) = Inr (poke x s1)"
    by (simp add: poke_thread_init 1)
  moreover have "omp_parallel_for t num_threads bend (int32 (bstart + int t)) (poke x s1)
      = Some (Inr (poke x s2))"
    using 2 by (rule poke_omp_parallel_for)
  ultimately show ?thesis
    by (simp add: omp_thread_def and_next_def Let_def mpf_clears_def 3 mpf_op_defs poke_simps)
qed

lemma poke_omp_parallel:
  assumes "omp_parallel ts num_threads bstart bend s = Some (Inr s')"
  shows "omp_parallel ts num_threads bstart bend (poke x s) = Some (Inr (poke x s'))"
  using assms
proof (induction ts arbitrary: s)
  case Nil
  then show ?case by simp
next
  case (Cons t ts)
  from Cons.prems obtain s1 where 1: "omp_thread t num_threads bstart bend s = Some (Inr s1)"
    and 2: "omp_parallel ts num_threads bstart bend s1 = Some (Inr s')"
    by (rule omp_parallel_Cons_Inr)
  from poke_omp_thread [OF 1] Cons.IH [OF 2] show ?case
    by (simp add: and_next_def)
qed

lemma poke_summation:
  assumes "chudnovsky_summation num_procs proc_id num_iterations num_threads s = Some (Inr s')"
  shows "chudnovsky_summation num_procs proc_id num_iterations num_threads (poke x s)
           = Some (Inr (poke x s'))"
proof -
  from assms obtain bsize where bs: "block_size num_iterations num_procs = Inr bsize"
    and par: "omp_parallel (omp_team num_threads) num_threads (block_start proc_id bsize)
           (block_end num_iterations (block_start proc_id bsize) bsize)
           (mpf_pow_ui V_c V_c (ulong (int32 (3 * num_threads)))
              (mpf_neg V_c V_c
                 (mpf_init_set_ui V_c (ulong C)
                    (mpf_init_set_ui V_e (ulong E)
                       (mpf_init_set_ui V_local_proc_pi 0 s))))) = Some (Inr s')"
    by (rule chudnovsky_summation_Inr)
  from poke_omp_parallel [OF par, of x] bs show ?thesis
    by (simp add: chudnovsky_summation_def and_next_def Let_def mpf_op_defs poke_simps)
qed

lemma poke_same: "poke (mem s V_pi) s = s"
  by (simp add: poke_def)

section \<open>The driver and the precision\<close>






lemma check_errors_gmp_not_aborted:
  "check_errors_gmp num_procs precision num_iterations num_threads proc_id algorithm s
     \<noteq> Aborted e"
  by (simp add: check_errors_gmp_def exit_def Let_def)




section \<open>One thread per process computes the series\<close>

lemma fact_6: "fact (6 * Suc n) = (6 * n + 6) * (6 * n + 5) * (6 * n + 4) * (6 * n + 3) * (6 * n + 2) * (6 * n + 1) * (fact (6 * n) :: nat)"
proof -
  have "6 * Suc n = Suc (Suc (Suc (Suc (Suc (Suc (6 * n))))))" by simp
  then show ?thesis by (simp only: fact_Suc) (simp add: algebra_simps)
qed

lemma fact_3: "fact (3 * Suc n) = (3 * n + 3) * (3 * n + 2) * (3 * n + 1) * (fact (3 * n) :: nat)"
proof -
  have "3 * Suc n = Suc (Suc (Suc (3 * n)))" by simp
  then show ?thesis by (simp only: fact_Suc) (simp add: algebra_simps)
qed

lemma ratio_cancel:
  fixes u v w p q r y f6 f1 f3 :: real
  assumes "u \<noteq> 0" "v \<noteq> 0" "w \<noteq> 0" "y \<noteq> 0" "f1 \<noteq> 0" "f3 \<noteq> 0"
  shows "((2 * u) * p * (2 * v) * q * (2 * w) * r * f6) / ((y * f1) ^ 3 * (u * v * w * f3))
       = (2 * p) * (2 * q) * (2 * r) * (f6 / (f1 ^ 3 * f3)) / y ^ 3"
  using assms by (simp add: field_simps power3_eq_cube)

lemma dep_a_of_Suc:
  "dep_a_of (Suc n) =
     (12 * real n + 10) * (12 * real n + 6) * (12 * real n + 2) * dep_a_of n / (real n + 1) ^ 3"
proof -
  define x where "x = real n"
  have x: "0 \<le> x" by (simp add: x_def)
  have "dep_a_of (Suc n) = ((6 * x + 6) * (6 * x + 5) * (6 * x + 4)
        * (6 * x + 3) * (6 * x + 2) * (6 * x + 1) * real (fact (6 * n)))
      / (((x + 1) * real (fact n)) ^ 3
         * ((3 * x + 3) * (3 * x + 2) * (3 * x + 1) * real (fact (3 * n))))"
    unfolding dep_a_of_def fact_6 fact_3 x_def by (simp add: algebra_simps)
  also have "\<dots> = ((2 * (3 * x + 3)) * (6 * x + 5) * (2 * (3 * x + 2))
        * (6 * x + 3) * (2 * (3 * x + 1)) * (6 * x + 1) * real (fact (6 * n)))
      / (((x + 1) * real (fact n)) ^ 3
         * ((3 * x + 3) * (3 * x + 2) * (3 * x + 1) * real (fact (3 * n))))"
    by (simp add: algebra_simps)
  also have "\<dots> = (2 * (6 * x + 5)) * (2 * (6 * x + 3)) * (2 * (6 * x + 1))
      * (real (fact (6 * n)) / (real (fact n) ^ 3 * real (fact (3 * n)))) / (x + 1) ^ 3"
    using x by (intro ratio_cancel) simp_all
  also have "\<dots> = (12 * x + 10) * (12 * x + 6) * (12 * x + 2) * dep_a_of n / (x + 1) ^ 3"
    by (simp add: dep_a_of_def algebra_simps)
  finally show ?thesis by (simp add: x_def)
qed

lemma loop_body_vals:
  assumes "loop_body t num_threads i s = Inr s'"
  shows "val (V_local_thread_pi t) s' = val (V_local_thread_pi t) s
            + val (V_dep_a t) s * val (V_dep_c t) s / val (V_dep_b t) s"
    and "val (V_dep_a t) s' =
           real (ulong (int32 (int32 (12 * i) + 10))) * real (ulong (int32 (int32 (12 * i) + 6)))
           * real (ulong (int32 (int32 (12 * i) + 2))) * val (V_dep_a t) s
           / real (ulong (int32 (i + 1))) ^ 3"
    and "val (V_dep_b t) s' = val (V_dep_b t) s * val V_c s"
    and "val (V_dep_c t) s' = val (V_dep_c t) s + real (ulong (int32 (B * num_threads)))"
  using assms
  by (auto simp add: loop_body_def chudnovsky_iteration_gmp_def update_deps_def Let_def
      and_then_Inr mpf_div_Inr mpf_op_defs val_simps)

lemma ulong_nat: "0 \<le> x \<Longrightarrow> x \<le> INT_MAX \<Longrightarrow> ulong (int32 x) = nat x"
proof -
  assume a: "0 \<le> x" "x \<le> INT_MAX"
  then have "int32 x = x"
    by (intro int32_id) (simp_all add: INT_MIN_def)
  with a show ?thesis
    by (simp add: ulong_def INT_MAX_def)
qed

lemma loop_body_advances:
  assumes "loop_body t 1 (int n) s = Inr s'"
    and "12 * int n + 10 \<le> INT_MAX"
    and "val V_c s = (- real_of_int C) ^ 3"
    and "recurrence_state t s = (dep_a_of n, dep_b_of n, dep_c_of n)"
  shows "recurrence_state t s' = (dep_a_of (Suc n), dep_b_of (Suc n), dep_c_of (Suc n))"
    and "val (V_local_thread_pi t) s' = val (V_local_thread_pi t) s + series_term n"
proof -
  have n: "int n + 1 \<le> INT_MAX" "12 * int n \<le> INT_MAX" "12 * int n + 6 \<le> INT_MAX"
    "12 * int n + 2 \<le> INT_MAX"
    using assms(2) by simp_all
  have i12: "int32 (12 * int n) = 12 * int n"
    using n by (intro int32_id) (simp_all add: INT_MIN_def)
  have u: "ulong (int32 (int32 (12 * int n) + 10)) = 12 * n + 10"
    "ulong (int32 (int32 (12 * int n) + 6)) = 12 * n + 6"
    "ulong (int32 (int32 (12 * int n) + 2)) = 12 * n + 2"
    "ulong (int32 (int n + 1)) = n + 1"
    unfolding i12 using n assms(2) by (simp_all add: ulong_nat nat_add_distrib nat_mult_distrib)
  have b: "ulong (int32 (B * 1)) = nat B"
    by (simp add: ulong_def int32_def B_def)
  have st: "val (V_dep_a t) s = dep_a_of n" "val (V_dep_b t) s = dep_b_of n"
    "val (V_dep_c t) s = dep_c_of n"
    using assms(4) by (simp_all add: recurrence_state_def)
  note v = loop_body_vals [OF assms(1)]
  have "val (V_dep_a t) s' = dep_a_of (Suc n)"
    unfolding v(2) u st by (simp add: dep_a_of_Suc algebra_simps)
  moreover have "val (V_dep_b t) s' = dep_b_of (Suc n)"
    unfolding v(3) st assms(3) by (simp add: dep_b_of_def power_add)
  moreover have "val (V_dep_c t) s' = dep_c_of (Suc n)"
    unfolding v(4) st b by (simp add: dep_c_of_def B_def algebra_simps)
  ultimately show "recurrence_state t s' = (dep_a_of (Suc n), dep_b_of (Suc n), dep_c_of (Suc n))"
    by (simp add: recurrence_state_def)
  show "val (V_local_thread_pi t) s' = val (V_local_thread_pi t) s + series_term n"
    unfolding v(1) st by (simp add: series_term_def)
qed

lemma thread_init_direct:
  assumes "thread_init t bstart s = Inr s'"
    and "0 \<le> bstart + int t" and "6 * (bstart + int t) \<le> INT_MAX"
    and "val V_c s = (- real_of_int C) ^ 3"
  shows "recurrence_state t s'
           = (dep_a_of (nat (bstart + int t)), dep_b_of (nat (bstart + int t)),
              dep_c_of (nat (bstart + int t)))"
proof -
  define n where "n = nat (bstart + int t)"
  have n: "bstart + int t = int n"
    using assms(2) by (simp add: n_def)
  have r: "int n \<le> INT_MAX" "3 * int n \<le> INT_MAX" "6 * int n \<le> INT_MAX"
    using assms(3) unfolding n by simp_all
  have i: "int32 (int n) = int n"
    using r by (intro int32_id) (simp_all add: INT_MIN_def)
  have u: "ulong (int n) = n" "ulong (int32 (3 * int n)) = 3 * n"
    "ulong (int32 (6 * int n)) = 6 * n"
    using r by (simp_all add: ulong_nat [of "int n", unfolded i] ulong_nat nat_mult_distrib)
  note v = thread_init_vals [OF assms(1), unfolded n i u]
  have "val (V_dep_a t) s' = dep_a_of n"
    unfolding v(2) by (simp add: dep_a_of_def mult.commute)
  moreover have "val (V_dep_b t) s' = dep_b_of n"
    unfolding v(3) assms(4) by (simp add: dep_b_of_def power_mult)
  moreover have "val (V_dep_c t) s' = dep_c_of n"
    unfolding v(4) ulong_consts by (simp add: dep_c_of_def A_def B_def)
  ultimately show ?thesis
    unfolding n_def [symmetric] by (simp add: recurrence_state_def)
qed

lemma dep_b_of_nonzero: "dep_b_of n \<noteq> 0"
  by (simp add: dep_b_of_def C_def)

lemma thread_loop_sum:
  assumes "0 \<le> i" and "12 * bend + 10 \<le> INT_MAX"
    and "val V_c s = (- real_of_int C) ^ 3"
    and "recurrence_state t s = (dep_a_of (nat i), dep_b_of (nat i), dep_c_of (nat i))"
  shows "\<exists>s'. thread_loop t 1 bend i s = Some (Inr s')
            \<and> val (V_local_thread_pi t) s'
                = val (V_local_thread_pi t) s + (\<Sum>k = nat i ..< nat bend. series_term k)
            \<and> touches (private_vars t) s s'"
  using assms(1,3,4)
proof (induction "nat (bend - i)" arbitrary: i s rule: less_induct)
  case less
  show ?case
  proof (cases "i < bend")
    case False
    then show ?thesis
      by (subst thread_loop.simps) (simp add: touches_refl)
  next
    case True
    define n where "n = nat i"
    have i: "i = int n"
      using less.prems(1) by (simp add: n_def)
    have range: "12 * int n + 10 \<le> INT_MAX" "i < INT_MAX"
      using True assms(2) by (simp_all add: i)
    have b: "val (V_dep_b t) s \<noteq> 0"
      using less.prems(3) by (simp add: recurrence_state_def dep_b_of_nonzero)
    have c: "val V_c s \<noteq> 0"
      by (simp add: less.prems(2) C_def)
    obtain s1 where body: "loop_body t 1 i s = Inr s1"
      using loop_body_returns [OF less.prems(1) range(2) b c] by blast
    note adv = loop_body_advances [OF body [unfolded i] range(1) less.prems(2)
        less.prems(3) [folded n_def]]
    note t1 = touches_loop_body [OF body]
    have c1: "val V_c s1 = (- real_of_int C) ^ 3"
      using touches_val [OF t1 private_vars_not(3)] less.prems(2) by simp
    have next_i: "int32 (i + 1) = i + 1"
      using range(2) less.prems(1) by (intro int32_id) (simp_all add: INT_MIN_def)
    have nat_next: "nat (i + 1) = Suc n"
      by (simp add: i)
    obtain s' where loop: "thread_loop t 1 bend (i + 1) s1 = Some (Inr s')"
      and sum: "val (V_local_thread_pi t) s'
          = val (V_local_thread_pi t) s1 + (\<Sum>k = Suc n ..< nat bend. series_term k)"
      and t2: "touches (private_vars t) s1 s'"
      using less.hyps [of "i + 1" s1] True less.prems(1) c1 adv(1)
      by (auto simp add: nat_next)
    have "n < nat bend"
      using True by (simp add: i)
    then have "(\<Sum>k = n ..< nat bend. series_term k)
        = series_term n + (\<Sum>k = Suc n ..< nat bend. series_term k)"
      by (simp add: sum.atLeast_Suc_lessThan)
    with sum adv(2) have "val (V_local_thread_pi t) s'
        = val (V_local_thread_pi t) s + (\<Sum>k = nat i ..< nat bend. series_term k)"
      by (simp add: n_def)
    moreover have "thread_loop t 1 bend i s = Some (Inr s')"
      using True body next_i loop by (subst thread_loop.simps) simp
    ultimately show ?thesis
      using touches_trans [OF t1 t2] by simp
  qed
qed

lemma omp_thread_sum:
  assumes "0 \<le> bstart + int t" and "6 * (bstart + int t) \<le> INT_MAX"
    and "12 * bend + 10 \<le> INT_MAX"
    and "val V_c s = (- real_of_int C) ^ 3"
  shows "\<exists>s'. omp_thread t 1 bstart bend s = Some (Inr s')
            \<and> val V_local_proc_pi s'
                = val V_local_proc_pi s + (\<Sum>k = nat (bstart + int t) ..< nat bend. series_term k)
            \<and> touches (insert V_local_proc_pi (private_vars t)) s s'"
proof -
  obtain s1 where init: "thread_init t bstart s = Inr s1"
    using thread_init_returns by blast
  note t1 = touches_thread_init [OF init]
  have c1: "val V_c s1 = (- real_of_int C) ^ 3"
    using touches_val [OF t1 private_vars_not(3)] assms(4) by simp
  have i: "int32 (bstart + int t) = bstart + int t"
    using assms(1,2) by (intro int32_id) (simp_all add: INT_MIN_def)
  obtain s2 where loop: "thread_loop t 1 bend (bstart + int t) s1 = Some (Inr s2)"
    and sum: "val (V_local_thread_pi t) s2 = val (V_local_thread_pi t) s1
          + (\<Sum>k = nat (bstart + int t) ..< nat bend. series_term k)"
    and t2: "touches (private_vars t) s1 s2"
    using thread_loop_sum [OF assms(1,3) c1 thread_init_direct [OF init assms(1,2,4)]]
    by blast
  define s' where "s' = mpf_add V_local_proc_pi V_local_proc_pi (V_local_thread_pi t) s2"
  have "bend + 1 \<le> INT_MAX"
    using assms(3) by (simp add: INT_MAX_def)
  then have "omp_parallel_for t 1 bend (bstart + int t) s1 = Some (Inr s2)"
    using loop assms(1) by (simp add: omp_parallel_for_loop)
  then have run: "omp_thread t 1 bstart bend s = Some (Inr s')"
    using init i by (simp add: omp_thread_def and_next_def Let_def mpf_clears_def s'_def)
  have "val V_local_proc_pi s2 = val V_local_proc_pi s"
    using touches_val [OF touches_trans [OF t1 t2] private_vars_not(4)] .
  then have "val V_local_proc_pi s'
      = val V_local_proc_pi s + (\<Sum>k = nat (bstart + int t) ..< nat bend. series_term k)"
    using sum thread_init_vals(1) [OF init]
    by (simp add: s'_def mpf_add_def val_set_val)
  with run touches_omp_thread [OF run] show ?thesis by simp
qed

lemma block_assignment_div:
  assumes "1 \<le> num_iterations" and "1 \<le> num_procs"
    and "0 \<le> proc_id" and "proc_id < num_procs"
    and "num_iterations + num_procs \<le> INT_MAX"
  shows "block_size num_iterations num_procs
           = Inr ((num_iterations + num_procs - 1) div num_procs)"
    and "block_start proc_id ((num_iterations + num_procs - 1) div num_procs)
           = proc_id * ((num_iterations + num_procs - 1) div num_procs)"
    and "block_end num_iterations
           (block_start proc_id ((num_iterations + num_procs - 1) div num_procs))
           ((num_iterations + num_procs - 1) div num_procs)
         = min ((proc_id + 1) * ((num_iterations + num_procs - 1) div num_procs))
             num_iterations"
  using block_assignment [OF assms] assms(2) by (auto simp add: ceiling_quotient)

lemma summation_single_thread:
  assumes "1 \<le> num_iterations" and "1 \<le> num_procs"
    and "0 \<le> proc_id" and "proc_id < num_procs"
    and "12 * (num_iterations + num_procs) \<le> INT_MAX"
  shows "\<exists>s'. chudnovsky_summation num_procs proc_id num_iterations 1 s = Some (Inr s')
     \<and> val V_local_proc_pi s'
         = (\<Sum>k = nat (proc_id * ((num_iterations + num_procs - 1) div num_procs))
                ..< nat (min ((proc_id + 1) * ((num_iterations + num_procs - 1) div num_procs))
                          num_iterations).
              series_term k)
     \<and> mp_prec (mem s' V_local_proc_pi) = default_prec s"
proof -
  define bsize where "bsize = (num_iterations + num_procs - 1) div num_procs"
  have small: "num_iterations + num_procs \<le> INT_MAX"
    using assms(1,2,5) by simp
  note blk = block_assignment_div [OF assms(1-4) small, folded bsize_def]
  define s0 where "s0 = mpf_pow_ui V_c V_c (ulong (int32 (3 * 1)))
              (mpf_neg V_c V_c
                 (mpf_init_set_ui V_c (ulong C)
                    (mpf_init_set_ui V_e (ulong E)
                       (mpf_init_set_ui V_local_proc_pi 0 s))))"
  have three: "ulong (int32 3) = 3"
    by (simp add: ulong_def int32_def)
  have "val V_c s0 = (- real (ulong C)) ^ 3"
    by (simp add: s0_def three mpf_op_defs val_simps)
  then have c: "val V_c s0 = (- real_of_int C) ^ 3"
    unfolding ulong_consts by (simp add: C_def)
  have z: "val V_local_proc_pi s0 = 0"
    by (simp add: s0_def mpf_op_defs val_simps)
  have pr: "has_prec V_local_proc_pi s0" "default_prec s0 = default_prec s"
    by (simp_all add: s0_def mpf_op_defs has_prec_def set_val_def mpf_init_set_ui_def)
  have nonneg: "0 \<le> bsize"
    using assms(1,2) by (simp add: bsize_def pos_imp_zdiv_nonneg_iff)
  have "proc_id * bsize \<le> num_procs * bsize"
    using assms(4) nonneg by (intro mult_right_mono) simp_all
  also have "\<dots> \<le> num_iterations + num_procs - 1"
    using assms(2) div_times_le [of num_procs "num_iterations + num_procs - 1"]
    by (simp add: bsize_def mult.commute)
  finally have le: "proc_id * bsize \<le> num_iterations + num_procs - 1" .
  have a1: "0 \<le> proc_id * bsize + int 0"
    using assms(3) nonneg by simp
  have a2: "6 * (proc_id * bsize + int 0) \<le> INT_MAX"
    using le assms(1,2,5) by simp
  have a3: "12 * min ((proc_id + 1) * bsize) num_iterations + 10 \<le> INT_MAX"
    using assms(1,2,5) by simp
  obtain s' where par: "omp_thread 0 1 (proc_id * bsize)
        (min ((proc_id + 1) * bsize) num_iterations) s0 = Some (Inr s')"
    and sum: "val V_local_proc_pi s' = val V_local_proc_pi s0
        + (\<Sum>k = nat (proc_id * bsize + int 0) ..<
               nat (min ((proc_id + 1) * bsize) num_iterations). series_term k)"
    and t: "touches (insert V_local_proc_pi (private_vars 0)) s0 s'"
    using omp_thread_sum [OF a1 a2 a3 c] by blast
  have "chudnovsky_summation num_procs proc_id num_iterations 1 s = Some (Inr s')"
    using par blk
    by (simp add: chudnovsky_summation_def and_next_def Let_def omp_team_def s0_def)
  moreover have "has_prec V_local_proc_pi s'"
    using t pr(1) by (rule has_prec_touches)
  moreover have "default_prec s' = default_prec s"
    using t pr(2) by (simp add: touches_def)
  ultimately show ?thesis
    using sum z by (simp add: bsize_def has_prec_def)
qed

lemma MPI_Reduce_root_val: "mp_val (MPI_Reduce_root xs) = sum_list (map mp_val xs)"
  by (induction xs rule: MPI_Reduce_root.induct) (simp_all add: add_gmp_def)

lemma payloads_map:
  assumes "\<And>p. p \<in> set ps \<Longrightarrow> payload_of num_procs num_iterations num_threads s p
             = Some (Inr (x p))"
  shows "payloads num_procs num_iterations num_threads s ps = Some (Inr (map x ps))"
  using assms by (induction ps) (simp_all add: and_next_def)

lemma blocks_telescope:
  fixes f :: "nat \<Rightarrow> real" and F :: "nat \<Rightarrow> nat"
  assumes "\<And>p. F p \<le> F (Suc p)"
  shows "(\<Sum>p < P. \<Sum>k = F p ..< F (Suc p). f k) = (\<Sum>k = F 0 ..< F P. f k)"
proof (induction P)
  case 0
  show ?case by simp
next
  case (Suc P)
  have "F 0 \<le> F P"
    using assms by (induction P) (auto intro: order_trans)
  then have "(\<Sum>k = F 0 ..< F (Suc P). f k)
      = (\<Sum>k = F 0 ..< F P. f k) + (\<Sum>k = F P ..< F (Suc P). f k)"
    using assms [of P] by (simp add: sum.atLeastLessThan_concat)
  with Suc show ?case by simp
qed

lemma blocks_cover:
  assumes "0 < (b::int)"
  shows "a \<le> (a + b - 1) div b * b"
proof -
  have "a + b - 1 = (a + b - 1) div b * b + (a + b - 1) mod b" by simp
  moreover have "(a + b - 1) mod b < b" using assms by simp
  ultimately show ?thesis by linarith
qed

lemma single_thread_sum:
  assumes "1 \<le> num_iterations" and "1 \<le> num_procs"
    and "12 * (num_iterations + num_procs) \<le> INT_MAX"
  shows "\<exists>g. global_sum num_procs num_iterations 1 s = Some (Inr g)
            \<and> mp_val g = sequential_sum (nat num_iterations)"
proof -
  define bsize where "bsize = (num_iterations + num_procs - 1) div num_procs"
  define bs where "bs = nat bsize"
  define n where "n = nat num_iterations"
  define F where "F p = min (p * bs) n" for p
  define x where "x p = \<lparr>mp_prec = default_prec s,
      mp_val = (\<Sum>k = nat (int p * bsize) ..< nat (min ((int p + 1) * bsize) num_iterations).
                  series_term k)\<rparr>" for p
  have nonneg: "0 \<le> bsize"
    using assms(1,2) by (simp add: bsize_def pos_imp_zdiv_nonneg_iff)
  have ints: "int bs = bsize" "int n = num_iterations"
    using nonneg assms(1) by (simp_all add: bs_def n_def)
  have pay: "payload_of num_procs num_iterations 1 s p = Some (Inr (x p))"
    if "p \<in> set [0 ..< nat num_procs]" for p
  proof -
    have p: "0 \<le> int p" "int p < num_procs"
      using that by simp_all
    obtain s' where sum: "chudnovsky_summation num_procs (int p) num_iterations 1 s
        = Some (Inr s')"
      and v: "val V_local_proc_pi s' = mp_val (x p)"
      and pr: "mp_prec (mem s' V_local_proc_pi) = default_prec s"
      using summation_single_thread [OF assms(1,2) p assms(3), of s]
      by (auto simp add: x_def bsize_def)
    have "mem s' V_local_proc_pi = x p"
      using v pr by (simp add: val_def x_def)
    with sum show ?thesis
      by (simp add: payload_of_def and_next_def pack_gmp_def)
  qed
  have "payloads num_procs num_iterations 1 s [0 ..< nat num_procs]
      = Some (Inr (map x [0 ..< nat num_procs]))"
    by (rule payloads_map) (rule pay)
  then have run: "global_sum num_procs num_iterations 1 s
      = Some (Inr (MPI_Reduce_root (map x [0 ..< nat num_procs])))"
    by (simp add: global_sum_def and_next_def)
  have block: "mp_val (x p) = (\<Sum>k = F p ..< F (Suc p). series_term k)" for p
  proof (cases "p * bs \<le> n")
    case True
    have "int (F p) = int p * bsize"
      using True by (simp add: F_def flip: ints)
    then have "nat (int p * bsize) = F p"
      by (metis nat_int)
    moreover have "int (F (Suc p)) = min ((int p + 1) * bsize) num_iterations"
      unfolding F_def of_nat_min by (simp add: algebra_simps flip: ints)
    then have "nat (min ((int p + 1) * bsize) num_iterations) = F (Suc p)"
      by (metis nat_int)
    ultimately show ?thesis by (simp add: x_def)
  next
    case False
    then have "n < p * bs" by simp
    then have "int n < int (p * bs)"
      by (simp only: of_nat_less_iff)
    then have "num_iterations < int p * bsize"
      by (simp add: ints)
    then have "nat (min ((int p + 1) * bsize) num_iterations) \<le> nat (int p * bsize)"
      by simp
    moreover have "F p = n" "F (Suc p) = n"
      using False by (simp_all add: F_def)
    ultimately show ?thesis by (simp add: x_def)
  qed
  have mono: "F p \<le> F (Suc p)" for p
    by (simp add: F_def min_def)
  have "num_iterations \<le> bsize * num_procs"
    using assms(2) blocks_cover [of num_procs num_iterations] by (simp add: bsize_def)
  then have "int n \<le> int (nat num_procs * bs)"
    using assms(2) by (simp add: ints mult.commute)
  then have "n \<le> nat num_procs * bs"
    by (simp only: of_nat_le_iff)
  then have top: "F (nat num_procs) = n"
    by (simp add: F_def)
  have "mp_val (MPI_Reduce_root (map x [0 ..< nat num_procs]))
      = sum_list (map (\<lambda>p. mp_val (x p)) [0 ..< nat num_procs])"
    by (simp add: MPI_Reduce_root_val comp_def)
  also have "\<dots> = (\<Sum>p < nat num_procs. mp_val (x p))"
    by (simp add: interv_sum_list_conv_sum_set_nat lessThan_atLeast0)
  also have "\<dots> = (\<Sum>p < nat num_procs. \<Sum>k = F p ..< F (Suc p). series_term k)"
    by (simp add: block)
  also have "\<dots> = (\<Sum>k = F 0 ..< F (nat num_procs). series_term k)"
    using mono by (rule blocks_telescope)
  also have "\<dots> = (\<Sum>k = 0 ..< n. series_term k)"
    unfolding top by (simp add: F_def)
  also have "\<dots> = sequential_sum n"
    by (simp add: sequential_sum_def lessThan_atLeast0)
  finally show ?thesis
    using run by (simp add: n_def)
qed

section \<open>The update of the dependencies\<close>

lemma update_deps_dep_c:
  assumes "update_deps t num_threads i s = Inr s'"
  shows "val (V_dep_c t) s' = val (V_dep_c t) s + real (ulong (int32 (B * num_threads)))"
  using assms
  by (auto simp add: update_deps_def Let_def and_then_def mpf_div_def mpf_mul_def mpf_add_ui_def
      mpf_set_ui_def mpf_mul_ui_def mpf_pow_ui_def val_set_val split: if_splits)

lemma update_deps_returns:
  assumes "ulong (int32 (i + 1)) \<noteq> 0"
  shows "\<exists>s'. update_deps t num_threads i s = Inr s'"
  using assms
  by (simp add: update_deps_def Let_def and_then_def mpf_div_def mpf_mul_def mpf_add_ui_def
      mpf_set_ui_def mpf_mul_ui_def mpf_pow_ui_def val_set_val)

lemma dep_c_increment_small:
  assumes "0 \<le> num_threads" and "num_threads \<le> 3"
    and "update_deps t num_threads i s = Inr s'"
  shows "val (V_dep_c t) s' = val (V_dep_c t) s + real_of_int (B * num_threads)"
proof -
  have "int (ulong (int32 (B * num_threads))) = B * num_threads"
    using assms(1,2) by (simp add: int32_def B_def ulong_def)
  then have "real (ulong (int32 (B * num_threads))) = real_of_int (B * num_threads)"
    by (metis of_int_of_nat_eq)
  with update_deps_dep_c [OF assms(3)] show ?thesis by simp
qed

section \<open>Direct initialisation and advance\<close>

lemma update_deps_vals:
  assumes "update_deps t num_threads i s = Inr s'"
  shows "val (V_dep_a t) s' =
           real (ulong (int32 (int32 (12 * i) + 10))) * real (ulong (int32 (int32 (12 * i) + 6)))
           * real (ulong (int32 (int32 (12 * i) + 2))) * val (V_dep_a t) s
           / real (ulong (int32 (i + 1))) ^ 3"
    and "val (V_dep_b t) s' = val (V_dep_b t) s * val V_c s"
    and "val (V_dep_c t) s' = val (V_dep_c t) s + real (ulong (int32 (B * num_threads)))"
  using assms
  by (auto simp add: update_deps_def Let_def and_then_Inr mpf_div_Inr mpf_op_defs val_simps)

lemma process_init_c:
  "val V_c (process_init num_threads s) = (- real (ulong C)) ^ ulong (int32 (3 * num_threads))"
  by (simp add: process_init_def Let_def mpf_op_defs val_simps)

lemma process_init_one: "val V_c (process_init 1 s) = (- real_of_int C) ^ 3"
proof -
  have "ulong (int32 (3 * 1)) = 3"
    by (simp add: ulong_def int32_def)
  then show ?thesis
    unfolding process_init_c ulong_consts by (simp add: C_def)
qed

lemma loop_index_one: "int k \<le> INT_MAX \<Longrightarrow> loop_index 1 k = int k"
proof (induction k)
  case 0
  show ?case by (simp add: int32_def)
next
  case (Suc k)
  then have "int32 (int k + 1) = int k + 1"
    by (intro int32_id) (simp_all add: INT_MIN_def)
  with Suc show ?case by simp
qed

lemma update_deps_advances:
  assumes "update_deps t 1 (int n) s = Inr s'"
    and "12 * int n + 10 \<le> INT_MAX"
    and "val V_c s = (- real_of_int C) ^ 3"
    and "recurrence_state t s = (dep_a_of n, dep_b_of n, dep_c_of n)"
  shows "recurrence_state t s' = (dep_a_of (Suc n), dep_b_of (Suc n), dep_c_of (Suc n))"
proof -
  have n: "int n + 1 \<le> INT_MAX" "12 * int n \<le> INT_MAX" "12 * int n + 6 \<le> INT_MAX"
    "12 * int n + 2 \<le> INT_MAX"
    using assms(2) by simp_all
  have i12: "int32 (12 * int n) = 12 * int n"
    using n by (intro int32_id) (simp_all add: INT_MIN_def)
  have u: "ulong (int32 (int32 (12 * int n) + 10)) = 12 * n + 10"
    "ulong (int32 (int32 (12 * int n) + 6)) = 12 * n + 6"
    "ulong (int32 (int32 (12 * int n) + 2)) = 12 * n + 2"
    "ulong (int32 (int n + 1)) = n + 1"
    unfolding i12 using n assms(2) by (simp_all add: ulong_nat nat_add_distrib nat_mult_distrib)
  have b: "ulong (int32 (B * 1)) = nat B"
    by (simp add: ulong_def int32_def B_def)
  have st: "val (V_dep_a t) s = dep_a_of n" "val (V_dep_b t) s = dep_b_of n"
    "val (V_dep_c t) s = dep_c_of n"
    using assms(4) by (simp_all add: recurrence_state_def)
  note v = update_deps_vals [OF assms(1)]
  have "val (V_dep_a t) s' = dep_a_of (Suc n)"
    unfolding v(1) u st by (simp add: dep_a_of_Suc algebra_simps)
  moreover have "val (V_dep_b t) s' = dep_b_of (Suc n)"
    unfolding v(2) st assms(3) by (simp add: dep_b_of_def power_add)
  moreover have "val (V_dep_c t) s' = dep_c_of (Suc n)"
    unfolding v(3) st b by (simp add: dep_c_of_def B_def algebra_simps)
  ultimately show ?thesis
    by (simp add: recurrence_state_def)
qed

lemma touches_val_c:
  "update_deps t num_threads i s = Inr s' \<Longrightarrow> val V_c s' = val V_c s"
  using touches_update_deps touches_val private_vars_not(3) by blast

lemma advanced_state_one:
  assumes "12 * int n + 10 \<le> INT_MAX"
  shows "\<exists>s'. advanced_state 1 n s = Inr s'
            \<and> recurrence_state 0 s' = (dep_a_of n, dep_b_of n, dep_c_of n)
            \<and> val V_c s' = (- real_of_int C) ^ 3"
  using assms
proof (induction n)
  case 0
  obtain s' where init: "thread_init 0 0 (process_init 1 s) = Inr s'"
    using thread_init_returns by blast
  have "recurrence_state 0 s' = (dep_a_of (nat (0 + int 0)), dep_b_of (nat (0 + int 0)),
      dep_c_of (nat (0 + int 0)))"
    by (rule thread_init_direct [OF init _ _ process_init_one]) (simp_all add: INT_MAX_def)
  moreover have "val V_c s' = (- real_of_int C) ^ 3"
    using touches_val [OF touches_thread_init [OF init] private_vars_not(3)]
    by (simp add: process_init_one)
  ultimately show ?case
    using init by simp
next
  case (Suc n)
  then obtain s1 where 1: "advanced_state 1 n s = Inr s1"
    and r: "recurrence_state 0 s1 = (dep_a_of n, dep_b_of n, dep_c_of n)"
    and c: "val V_c s1 = (- real_of_int C) ^ 3"
    by auto
  have range: "12 * int n + 10 \<le> INT_MAX" "int n \<le> INT_MAX"
    using Suc.prems by simp_all
  have "ulong (int32 (int n + 1)) \<noteq> 0"
    using range by (simp add: ulong_nat)
  then obtain s' where 2: "update_deps 0 1 (int n) s1 = Inr s'"
    using update_deps_returns by blast
  from update_deps_advances [OF 2 range(1) c r] touches_val_c [OF 2] c 1 2 range(2)
  show ?case
    by (simp add: and_then_def loop_index_one)
qed

lemma direct_state_one:
  assumes "6 * int n \<le> INT_MAX"
  shows "\<exists>s'. direct_state 1 n s = Inr s'
            \<and> recurrence_state 0 s' = (dep_a_of n, dep_b_of n, dep_c_of n)"
proof -
  obtain s' where init: "thread_init 0 (int n) (process_init 1 s) = Inr s'"
    using thread_init_returns by blast
  have "recurrence_state 0 s' = (dep_a_of (nat (int n + int 0)), dep_b_of (nat (int n + int 0)),
      dep_c_of (nat (int n + int 0)))"
    using assms by (intro thread_init_direct [OF init _ _ process_init_one]) simp_all
  with init show ?thesis
    by (simp add: direct_state_def)
qed

lemma direct_equals_advanced_one_thread:
  assumes "12 * int n + 10 \<le> INT_MAX"
  shows "\<exists>s1 s2. direct_state 1 n s = Inr s1 \<and> advanced_state 1 n s = Inr s2
            \<and> recurrence_state 0 s1 = recurrence_state 0 s2"
proof -
  have "6 * int n \<le> INT_MAX"
    using assms by simp
  from direct_state_one [OF this, of s] advanced_state_one [OF assms, of s]
  show ?thesis by auto
qed

lemma omp_thread_one_iteration:
  assumes "int32 (bstart + int t) < bend"
    and "\<not> int32 (int32 (bstart + int t) + num_threads) < bend"
    and "0 \<le> int32 (bstart + int t)" and "int32 (bstart + int t) < INT_MAX"
    and "val V_c s \<noteq> 0"
    and "1 \<le> num_threads" and "bend + num_threads \<le> INT_MAX"
  shows "\<exists>s'. omp_thread t num_threads bstart bend s = Some (Inr s')
     \<and> val V_local_proc_pi s' = val V_local_proc_pi s
         + real_of_int (fact (ulong (int32 (6 * int32 (bstart + int t)))))
            / real_of_int (fact (ulong (int32 (3 * int32 (bstart + int t))))
                 * fact (ulong (int32 (bstart + int t))) ^ 3)
            * (real (ulong B) * real (ulong (int32 (bstart + int t))) + real (ulong A))
            / val V_c s ^ ulong (int32 (bstart + int t))
     \<and> val V_c s' = val V_c s"
proof -
  define i where "i = int32 (bstart + int t)"
  obtain s1 where init: "thread_init t bstart s = Inr s1"
    using thread_init_returns by blast
  note v = thread_init_vals [OF init, folded i_def]
  note t1 = touches_thread_init [OF init]
  have c1: "val V_c s1 = val V_c s"
    using t1 by (rule touches_val) (rule private_vars_not)
  have b1: "val (V_dep_b t) s1 \<noteq> 0"
    using assms(5) by (simp add: v(3))
  obtain s2 where body: "loop_body t num_threads i s1 = Inr s2"
    using loop_body_returns [OF assms(3,4) [folded i_def] b1] c1 assms(5) by auto
  note t2 = touches_loop_body [OF body]
  have loop: "thread_loop t num_threads bend i s1 = Some (Inr s2)"
    using assms(1,2) body unfolding i_def [symmetric]
    by (subst thread_loop.simps, simp, subst thread_loop.simps, simp)
  define s' where "s' = mpf_add V_local_proc_pi V_local_proc_pi (V_local_thread_pi t) s2"
  have "omp_parallel_for t num_threads bend i s1 = Some (Inr s2)"
    using loop assms(3,6,7) by (simp add: omp_parallel_for_loop i_def)
  then have run: "omp_thread t num_threads bstart bend s = Some (Inr s')"
    using init
    by (simp add: omp_thread_def and_next_def Let_def mpf_clears_def s'_def i_def)
  have "val V_local_proc_pi s2 = val V_local_proc_pi s"
    using touches_val [OF touches_trans [OF t1 t2] private_vars_not(4)] .
  then have "val V_local_proc_pi s' = val V_local_proc_pi s
      + val (V_dep_a t) s1 * val (V_dep_c t) s1 / val (V_dep_b t) s1"
    using loop_body_vals(1) [OF body] v(1)
    by (simp add: s'_def mpf_add_def val_set_val)
  moreover have "val V_c s' = val V_c s"
    using touches_val [OF touches_omp_thread [OF run], of V_c]
    by (simp add: private_vars_not)
  ultimately show ?thesis
    using run unfolding v(2,3,4) i_def by simp
qed

lemma summation_process_init:
  "chudnovsky_summation num_procs proc_id num_iterations num_threads s =
     and_next (Some (block_size num_iterations num_procs))
       (\<lambda>bsize. omp_parallel (omp_team num_threads) num_threads (block_start proc_id bsize)
          (block_end num_iterations (block_start proc_id bsize) bsize)
          (process_init num_threads s))"
  by (simp add: chudnovsky_summation_def process_init_def Let_def)

lemma two_threads_summation:
  "\<exists>s'. chudnovsky_summation 1 0 2 2 s = Some (Inr s')
     \<and> val V_local_proc_pi s' = 13591409 + 120 * 558731543 / 640320 ^ 6"
proof -
  define s0 where "s0 = process_init 2 s"
  have c0: "val V_c s0 = 640320 ^ 6"
  proof -
    have "ulong (int32 (3 * 2)) = 6"
      by (simp add: ulong_def int32_def)
    then show ?thesis
      unfolding s0_def process_init_c ulong_consts by simp
  qed
  have z0: "val V_local_proc_pi s0 = 0"
    by (simp add: s0_def process_init_def Let_def mpf_op_defs val_simps)
  have i0: "int32 0 = 0" "int32 2 = 2"
    and i1: "int32 1 = 1" "int32 3 = 3" "int32 6 = 6"
    and u: "ulong 0 = 0" "ulong 1 = 1" "ulong 6 = 6" "ulong 3 = 3"
    by (simp_all add: int32_def ulong_def)
  obtain s1 where 1: "omp_thread 0 2 0 2 s0 = Some (Inr s1)"
    and v1: "val V_local_proc_pi s1 = 13591409"
    and c1: "val V_c s1 = 640320 ^ 6"
    using omp_thread_one_iteration [of 0 0 2 2 s0]
    by (auto simp add: i0 u ulong_consts INT_MAX_def c0 z0)
  obtain s2 where 2: "omp_thread 1 2 0 2 s1 = Some (Inr s2)"
    and v2: "val V_local_proc_pi s2 = 13591409 + 120 * 558731543 / 640320 ^ 6"
    using omp_thread_one_iteration [of 0 1 2 2 s1]
    by (auto simp add: i0 i1 u ulong_consts INT_MAX_def c1 v1 fact_numeral)
  have "block_size 2 1 = Inr 2" "block_start 0 2 = 0" "block_end 2 0 2 = 2"
    by (simp_all add: block_size_def c_div_def c_quot_def block_start_def block_end_def
        int32_def INT_MIN_def)
  moreover have "omp_team 2 = [0, 1]"
    by (simp add: omp_team_def upt_rec)
  ultimately have "chudnovsky_summation 1 0 2 2 s = Some (Inr s2)"
    using 1 2 by (simp add: summation_process_init and_next_def s0_def)
  with v2 show ?thesis by simp
qed

lemma series_values:
  "dep_a_of 0 = 1" "dep_a_of (Suc 0) = 120" "dep_a_of 2 = 83160"
  "dep_b_of 0 = 1" "dep_b_of (Suc 0) = - (640320 ^ 3)" "dep_b_of 2 = 640320 ^ 6"
  "dep_c_of 0 = 13591409" "dep_c_of (Suc 0) = 558731543" "dep_c_of 2 = 1103871677"
  by (simp_all add: dep_a_of_def dep_b_of_def dep_c_of_def A_def B_def C_def fact_numeral)

lemma sequential_sum_two: "sequential_sum 2 = 13591409 - 120 * 558731543 / 640320 ^ 3"
proof -
  have "sequential_sum 2 = series_term 0 + series_term 1"
    by (simp add: sequential_sum_def numeral_2_eq_2)
  then show ?thesis
    by (simp add: series_term_def series_values)
qed

section \<open>The run of the group\<close>

lemma global_sum_root_returns:
  assumes "global_sum num_procs num_iterations num_threads s = Some (Inr g)"
    and "1 \<le> num_procs"
  shows "\<exists>s1. chudnovsky_summation num_procs 0 num_iterations num_threads s = Some (Inr s1)"
proof -
  have "[0 ..< nat num_procs] = 0 # [1 ..< nat num_procs]"
    using assms(2) by (simp add: upt_conv_Cons)
  with assms(1) show ?thesis
    by (auto simp add: global_sum_def payload_of_def and_next_Some_Inr)
qed

lemma run_root_assembles:
  assumes "global_sum num_procs num_iterations num_threads s = Some (Inr g)"
    and "1 \<le> num_procs" and "mp_val g \<noteq> 0"
  shows "\<exists>s'. run_root num_procs num_iterations num_threads s = Some (Inr s')
            \<and> val V_pi s' = sqrt (real_of_int E) * real_of_int D / mp_val g"
proof -
  obtain s1 where
    "chudnovsky_summation num_procs 0 num_iterations num_threads s = Some (Inr s1)"
    using global_sum_root_returns [OF assms(1,2)] by blast
  from algorithm_root [OF this assms(3)] assms(1) show ?thesis
    by (simp add: run_root_def and_next_def val_set_val E_def D_def)
qed

section \<open>The contribution of one term\<close>

text \<open>
  C6. One call of \<open>chudnovsky_iteration_gmp\<close> adds \<open>dep_a * dep_c / dep_b\<close> to
  \<open>pi\<close> in place and leaves \<open>dep_a\<close>, \<open>dep_b\<close> and \<open>dep_c\<close> as they are; only
  \<open>pi\<close> and the scratch variable \<open>aux\<close> change. The call is made with distinct
  variables and a non-zero \<open>dep_b\<close> (GMP aborts on a division by zero); the values are
  the exact ones, rounding is not modelled.
\<close>

theorem chudnovsky_iteration_gmp_adds_term:
  assumes "val dep_b s \<noteq> 0"
    and "aux \<notin> {pi', dep_a, dep_b, dep_c}"
    and "pi' \<notin> {dep_a, dep_b, dep_c}"
  shows "\<exists>s'. chudnovsky_iteration_gmp pi' n dep_a dep_b dep_c aux s = Inr s'
           \<and> val pi' s' = val pi' s + val dep_a s * val dep_c s / val dep_b s
           \<and> mp_prec (mem s' pi') = mp_prec (mem s pi')
           \<and> mem s' dep_a = mem s dep_a \<and> mem s' dep_b = mem s dep_b
           \<and> mem s' dep_c = mem s dep_c
           \<and> (\<forall>x. x \<noteq> pi' \<longrightarrow> x \<noteq> aux \<longrightarrow> mem s' x = mem s x)"
  using assms
  by (auto simp add: chudnovsky_iteration_gmp_def and_then_def mpf_div_def mpf_mul_def
      mpf_add_def val_set_val mem_set_val_other mp_prec_set_val)

theorem chudnovsky_iteration_gmp_adds_term_witness:
  "\<exists>s'. chudnovsky_iteration_gmp (V_local_thread_pi 0) 1 (V_dep_a 0) (V_dep_b 0) (V_dep_c 0)
          (V_aux 0)
          (set_val (V_dep_c 0) 4 (set_val (V_dep_b 0) (- 8) (set_val (V_dep_a 0) 6
             (set_val (V_local_thread_pi 0) 5 (fresh 64))))) = Inr s'
        \<and> val (V_local_thread_pi 0) s' = 2"
  using chudnovsky_iteration_gmp_adds_term [of "V_dep_b 0"
      "set_val (V_dep_c 0) 4 (set_val (V_dep_b 0) (- 8) (set_val (V_dep_a 0) 6
         (set_val (V_local_thread_pi 0) 5 (fresh 64))))"
      "V_aux 0" "V_local_thread_pi 0" "V_dep_a 0" "V_dep_c 0" 1]
  by (auto simp add: val_set_val)

section \<open>The block of a process\<close>

text \<open>
  C4. For \<open>num_iterations \<ge> 1\<close> and \<open>num_procs \<ge> 1\<close> the assignments of lines 94
  to 97 give the process \<open>proc_id\<close> of the group the block
  \<open>[proc_id * block_size, min ((proc_id + 1) * block_size, num_iterations))\<close> with
  \<open>block_size = ceil (num_iterations / num_procs)\<close>. The sum
  \<open>num_iterations + num_procs\<close> is an \<open>int\<close>.
\<close>

theorem block_of_process:
  assumes "1 \<le> num_iterations" and "1 \<le> num_procs"
    and "0 \<le> proc_id" and "proc_id < num_procs"
    and "num_iterations + num_procs \<le> INT_MAX"
  shows "\<exists>bsize. block_size num_iterations num_procs = Inr bsize
           \<and> bsize = \<lceil>real_of_int num_iterations / real_of_int num_procs\<rceil>
           \<and> block_start proc_id bsize = proc_id * bsize
           \<and> block_end num_iterations (block_start proc_id bsize) bsize
               = min ((proc_id + 1) * bsize) num_iterations"
  using assms by (rule block_assignment)

theorem block_of_process_witness:
  "block_size 5 4 = Inr 2 \<and> block_start 2 2 = 4 \<and> block_end 5 4 2 = 5"
  using block_of_process [of 5 4 2]
  by (auto simp add: INT_MAX_def ceiling_quotient)

section \<open>The increment of the linear term\<close>

text \<open>
  C3. Every advance of the recurrence state should add \<open>B * num_threads\<close> to
  \<open>dep_c\<close>. The product of line 151 is an \<open>int\<close>: with four threads it leaves the
  range of \<open>int\<close>, and the wrapped value, converted to \<open>unsigned long\<close>, is what
  \<open>mpf_add_ui\<close> adds (here at the first iteration, \<open>i = 0\<close>, for any thread and
  any state), while \<open>B * 4\<close> is 2180560536. With up to three threads the increment is
  \<open>B * num_threads\<close> (\<open>dep_c_increment_small\<close>).
\<close>

theorem dep_c_increment_four_threads:
  "\<exists>s'. update_deps t 4 0 s = Inr s'
     \<and> val (V_dep_c t) s' = val (V_dep_c t) s + 18446744071595144856
     \<and> real_of_int (B * 4) = 2180560536"
proof -
  have "ulong (int32 (0 + 1)) \<noteq> 0"
    by (simp add: int32_def ulong_def)
  then obtain s' where s': "update_deps t 4 0 s = Inr s'"
    using update_deps_returns by blast
  have "ulong (int32 (B * 4)) = 18446744071595144856"
    by (simp add: int32_def B_def ulong_def)
  with update_deps_dep_c [OF s'] have "val (V_dep_c t) s' = val (V_dep_c t) s + 18446744071595144856"
    by simp
  with s' show ?thesis by (simp add: B_def)
qed

section \<open>The check of the configuration\<close>



section \<open>A process without terms\<close>



section \<open>The final assembly\<close>

text \<open>
  C7. On the root, once the summation of the process has returned and the reduction
  has delivered the sum \<open>recbuffer\<close> of all the contributions, the value written to
  \<open>pi\<close> is \<open>sqrt E * D / recbuffer\<close> with \<open>E = 10005\<close> and \<open>D = 426880\<close>.
  The variables \<open>e\<close> and \<open>local_proc_pi\<close> carry the default precision of the
  process, \<open>pi\<close> keeps the precision it was initialised with, and the default precision
  has not changed. GMP aborts when the received sum is zero. For the run of the whole
  group, where \<open>recbuffer\<close> is the sum of the payloads of all the processes, see
  \<open>run_root_assembles\<close>.
\<close>

theorem final_assembly:
  assumes "chudnovsky_summation num_procs 0 num_iterations num_threads s = Some (Inr s1)"
    and "mp_val recbuffer \<noteq> 0"
  shows "\<exists>s'. chudnovsky_algorithm_gmp recbuffer num_procs 0 num_iterations num_threads s
              = Some (Inr s')
           \<and> val V_pi s' = sqrt (real_of_int E) * real_of_int D / mp_val recbuffer
           \<and> mp_prec (mem s' V_pi) = mp_prec (mem s V_pi)
           \<and> has_prec V_e s' \<and> has_prec V_local_proc_pi s'
           \<and> default_prec s' = default_prec s"
proof -
  define s2 where "s2 = MPI_Reduce (pack_gmp (mem s1 V_local_proc_pi)) s1"
  define s' where "s' = set_val V_pi (sqrt 10005 * 426880 / mp_val recbuffer)
                (set_val V_e (sqrt 10005 * 426880)
                  (set_val V_e (sqrt 10005)
                    (set_val V_pi (mp_val recbuffer) s2)))"
  have run: "chudnovsky_algorithm_gmp recbuffer num_procs 0 num_iterations num_threads s
      = Some (Inr s')"
    unfolding s'_def s2_def using assms by (rule algorithm_root)
  note t = summation_facts(1) [OF assms(1)]
  have "mem s1 V_pi = mem s V_pi"
    using t by (rule touches_mem) (rule process_vars_not)
  then have prec: "mp_prec (mem s' V_pi) = mp_prec (mem s V_pi)"
    by (simp add: s'_def s2_def mp_prec_set_val MPI_Reduce_def)
  have d1: "default_prec s1 = default_prec s"
    using t by (simp add: touches_def)
  have d: "default_prec s' = default_prec s1"
    by (simp add: s'_def s2_def set_val_def MPI_Reduce_def)
  have "has_prec V_e s1" "has_prec V_local_proc_pi s1"
    using summation_facts(4) [OF assms(1)] by (simp_all add: process_vars_def team_vars_def)
  then have "has_prec V_e s'" "has_prec V_local_proc_pi s'"
    using d by (simp_all add: has_prec_def s'_def s2_def mp_prec_set_val MPI_Reduce_def)
  moreover have "val V_pi s' = sqrt (real_of_int E) * real_of_int D / mp_val recbuffer"
    by (simp add: s'_def val_set_val E_def D_def)
  ultimately show ?thesis
    using run prec d d1 by simp
qed

theorem final_assembly_witness:
  "\<exists>s'. chudnovsky_algorithm_gmp \<lparr>mp_prec = 112, mp_val = 13591409\<rparr> 1 0 1 1 (fresh 112)
           = Some (Inr s')
        \<and> val V_pi s' = sqrt 10005 * 426880 / 13591409"
proof -
  obtain s1 where "chudnovsky_summation 1 0 1 1 (fresh 112) = Some (Inr s1)"
    using summation_returns [of 1 1 0 1 "fresh 112"] by (auto simp add: INT_MAX_def)
  from final_assembly [OF this, of "\<lparr>mp_prec = 112, mp_val = 13591409\<rparr>"]
  show ?thesis by (auto simp add: E_def D_def)
qed

section \<open>The output parameter on the other processes\<close>

text \<open>
  C9. On a process other than the root, \<open>chudnovsky_algorithm_gmp\<close> neither writes
  nor reads \<open>pi\<close>: when it returns, \<open>pi\<close> is what it was at the call, and with any
  other content \<open>x\<close> of \<open>pi\<close> at the call the run returns the same state, with
  \<open>x\<close> in \<open>pi\<close>.
\<close>

theorem non_root_leaves_pi:
  assumes "proc_id \<noteq> 0"
    and "chudnovsky_algorithm_gmp recbuffer num_procs proc_id num_iterations num_threads s
           = Some (Inr s')"
  shows "mem s' V_pi = mem s V_pi
      \<and> (\<forall>x. chudnovsky_algorithm_gmp recbuffer num_procs proc_id num_iterations num_threads
                (poke x s) = Some (Inr (poke x s')))"
proof -
  from assms(2) obtain s1 where
    sum: "chudnovsky_summation num_procs proc_id num_iterations num_threads s = Some (Inr s1)"
    by (auto simp add: chudnovsky_algorithm_gmp_def and_next_Some_Inr)
  have s': "s' = MPI_Reduce (pack_gmp (mem s1 V_local_proc_pi)) s1"
    using algorithm_non_root [OF sum assms(1), of recbuffer] assms(2) by simp
  have "mem s1 V_pi = mem s V_pi"
    using summation_facts(1) [OF sum] by (rule touches_mem) (rule process_vars_not)
  then have keep: "mem s' V_pi = mem s V_pi"
    by (simp add: s' MPI_Reduce_def)
  have "chudnovsky_algorithm_gmp recbuffer num_procs proc_id num_iterations num_threads
          (poke x s) = Some (Inr (poke x s'))" for x
    using algorithm_non_root [OF poke_summation [OF sum, of x] assms(1), of recbuffer]
    by (simp add: s' poke_simps)
  with keep show ?thesis by simp
qed

theorem non_root_leaves_pi_witness:
  "\<exists>s'. chudnovsky_algorithm_gmp \<lparr>mp_prec = 0, mp_val = 0\<rparr> 2 1 2 1 (fresh 224) = Some (Inr s')
     \<and> mem s' V_pi = mem (fresh 224) V_pi
     \<and> chudnovsky_algorithm_gmp \<lparr>mp_prec = 0, mp_val = 0\<rparr> 2 1 2 1
          (poke \<lparr>mp_prec = 5, mp_val = 3\<rparr> (fresh 224))
        = Some (Inr (poke \<lparr>mp_prec = 5, mp_val = 3\<rparr> s'))"
proof -
  obtain s1 where "chudnovsky_summation 2 1 2 1 (fresh 224) = Some (Inr s1)"
    using summation_returns [of 2 2 1 1 "fresh 224"] by (auto simp add: INT_MAX_def)
  then obtain s' where run: "chudnovsky_algorithm_gmp \<lparr>mp_prec = 0, mp_val = 0\<rparr> 2 1 2 1
      (fresh 224) = Some (Inr s')"
    by (simp add: algorithm_non_root)
  from non_root_leaves_pi [OF _ run] run show ?thesis by simp
qed

section \<open>The working precision\<close>



section \<open>The decomposition against the sequential pass\<close>

text \<open>
  C1. The sum of the contributions of all the processes and threads should be the sum
  of a sequential pass over the same indices. With one thread per process it is, for
  any number of processes (\<open>single_thread_sum\<close>). With one process, two threads and
  two iterations, a configuration that the check accepts, the code delivers
  \<open>13591409 + 120 * 558731543 / 640320 ^ 6\<close>, while the sequential pass (one process,
  one thread) and the series give \<open>13591409 - 120 * 558731543 / 640320 ^ 3\<close>: the
  thread 1 starts with \<open>dep_b = c ^ 1\<close> where \<open>c\<close> is already
  \<open>(-640320) ^ (3 * num_threads)\<close>. The two sums differ by more than \<open>10 ^ -7\<close>,
  far beyond any rounding at the precision of the run.
\<close>

theorem two_threads_sum_differs:
  "\<exists>x y. global_sum 1 2 2 s = Some (Inr x) \<and> global_sum 1 2 1 s = Some (Inr y)
     \<and> mp_val x = 13591409 + 120 * 558731543 / 640320 ^ 6
     \<and> mp_val y = sequential_sum 2
     \<and> sequential_sum 2 = 13591409 - 120 * 558731543 / 640320 ^ 3
     \<and> 1 / 10 ^ 7 < \<bar>mp_val x - mp_val y\<bar>"
proof -
  obtain s' where sum: "chudnovsky_summation 1 0 2 2 s = Some (Inr s')"
    and v: "val V_local_proc_pi s' = 13591409 + 120 * 558731543 / 640320 ^ 6"
    using two_threads_summation by blast
  have par: "global_sum 1 2 2 s = Some (Inr (mem s' V_local_proc_pi))"
    using sum by (simp add: global_sum_def payload_of_def and_next_def pack_gmp_def)
  obtain y where seq: "global_sum 1 2 1 s = Some (Inr y)" and y: "mp_val y = sequential_sum 2"
    using single_thread_sum [of 2 1 s] by (auto simp add: INT_MAX_def)
  have "1 / 10 ^ 7 < \<bar>(13591409 + 120 * 558731543 / 640320 ^ 6)
      - (13591409 - 120 * 558731543 / 640320 ^ 3) :: real\<bar>"
    by simp
  with par seq y v show ?thesis
    by (simp add: sequential_sum_two val_def)
qed

section \<open>Direct initialisation against the advance\<close>

text \<open>
  C2. The recurrence state initialised directly at the index \<open>n\<close> should be the state
  reached from the index 0 by advancing. With one thread both are the state of the
  series at \<open>n\<close> (\<open>direct_equals_advanced_one_thread\<close>). With two threads one
  advance from the index 0 leads to \<open>(120, 640320 ^ 6, 1103871677)\<close>, which is neither
  the direct state at the index 1 nor the direct state at the index 2 (the index the
  loop is at after one advance): the advance moves \<open>dep_a\<close> by one index and \<open>dep_b\<close>,
  \<open>dep_c\<close> by two, and the direct initialisation of \<open>dep_b\<close> is
  \<open>(-640320) ^ (3 * num_threads * n)\<close>. Neither direct state is the state of the series
  at its index.
\<close>

theorem two_threads_states_differ:
  "\<exists>s1 s2 s3. advanced_state 2 1 s = Inr s1 \<and> direct_state 2 1 s = Inr s2
     \<and> direct_state 2 2 s = Inr s3
     \<and> recurrence_state 0 s1 = (120, 640320 ^ 6, 1103871677)
     \<and> recurrence_state 0 s2 = (120, 640320 ^ 6, 558731543)
     \<and> recurrence_state 0 s3 = (83160, 640320 ^ 12, 1103871677)
     \<and> (dep_a_of 1, dep_b_of 1, dep_c_of 1) = (120, - (640320 ^ 3), 558731543)
     \<and> (dep_a_of 2, dep_b_of 2, dep_c_of 2) = (83160, 640320 ^ 6, 1103871677)"
proof -
  define s0 where "s0 = process_init 2 s"
  have c0: "val V_c s0 = 640320 ^ 6"
  proof -
    have "ulong (int32 (3 * 2)) = 6"
      by (simp add: ulong_def int32_def)
    then show ?thesis
      unfolding s0_def process_init_c ulong_consts by simp
  qed
  have i: "int32 0 = 0" "int32 1 = 1" "int32 2 = 2" "int32 3 = 3" "int32 6 = 6"
    "int32 12 = 12" "int32 10 = 10" "int32 1090280268 = 1090280268"
    and u: "ulong 0 = 0" "ulong 1 = 1" "ulong 2 = 2" "ulong 3 = 3" "ulong 6 = 6"
    "ulong 12 = 12" "ulong 10 = 10" "ulong 1090280268 = 1090280268"
    by (simp_all add: int32_def ulong_def)
  obtain t0 where init0: "thread_init 0 0 s0 = Inr t0"
    using thread_init_returns by blast
  note v0 = thread_init_vals [OF init0]
  have "ulong (int32 (0 + 1)) \<noteq> 0"
    by (simp add: i u)
  then obtain s1 where adv: "update_deps 0 2 0 t0 = Inr s1"
    using update_deps_returns by blast
  have ct0: "val V_c t0 = 640320 ^ 6"
    using touches_val [OF touches_thread_init [OF init0] private_vars_not(3)] c0 by simp
  have r1: "recurrence_state 0 s1 = (120, 640320 ^ 6, 1103871677)"
    unfolding recurrence_state_def update_deps_vals [OF adv] v0 ct0 c0
    by (simp add: i u ulong_consts B_def)
  have a1: "advanced_state 2 1 s = Inr s1"
    using init0 adv by (simp add: and_then_def s0_def i)
  obtain s2 where init1: "thread_init 0 1 s0 = Inr s2"
    using thread_init_returns by blast
  have r2: "recurrence_state 0 s2 = (120, 640320 ^ 6, 558731543)"
    unfolding recurrence_state_def thread_init_vals [OF init1] c0
    by (simp add: i u ulong_consts fact_numeral)
  obtain s3 where init2: "thread_init 0 2 s0 = Inr s3"
    using thread_init_returns by blast
  have r3: "recurrence_state 0 s3 = (83160, 640320 ^ 12, 1103871677)"
    unfolding recurrence_state_def thread_init_vals [OF init2] c0
    by (simp add: i u ulong_consts fact_numeral)
  from a1 init1 init2 r1 r2 r3 show ?thesis
    by (simp add: direct_state_def s0_def series_values)
qed

end
